theory Spec2Isabelle
  imports Complex_Main "HOL-Library.Code_Target_Nat"
begin

section \<open>JavaScript strings\<close>

text \<open>
  A JavaScript string is a sequence of UTF-16 code units; \<open>.length\<close>, \<open>substring\<close>,
  \<open>lastIndexOf\<close> and regular expressions without the \<open>u\<close> flag all count code
  units. A code unit is modelled as a natural number (below 65536 in a well-formed string),
  a string as the list of its code units. Source literals are ASCII and written through
  \<open>str\<close>.
\<close>

type_synonym jsstring = "nat list"

definition str :: "string \<Rightarrow> jsstring" where
  "str s = map of_char s"

text \<open>
  The members of a character class: a character, a range, or one of the escapes
  \<open>\s\<close>, \<open>\S\<close>, \<open>\d\<close>, \<open>\w\<close>.
\<close>

datatype citem = Ch nat | Rng nat nat | Space | NonSpace | Digit | WordChar

text \<open>WhiteSpace and LineTerminator of ECMAScript: what \<open>\s\<close> matches and \<open>trim()\<close> strips.\<close>

definition is_ws :: "nat \<Rightarrow> bool" where
  "is_ws c = (c \<in> set [9, 10, 11, 12, 13, 32, 160, 0x1680, 0x2028, 0x2029, 0x202F, 0x205F,
                         0x3000, 0xFEFF] \<or> (0x2000 \<le> c \<and> c \<le> 0x200A))"

definition is_digit :: "nat \<Rightarrow> bool" where
  "is_digit c = (48 \<le> c \<and> c \<le> 57)"

definition is_word_char :: "nat \<Rightarrow> bool" where
  "is_word_char c = ((97 \<le> c \<and> c \<le> 122) \<or> (65 \<le> c \<and> c \<le> 90) \<or> is_digit c \<or> c = 95)"

text \<open>LineTerminator: what \<open>.\<close> refuses and what \<open>^\<close>, \<open>$\<close> look at under the \<open>m\<close> flag.\<close>

definition is_line_terminator :: "nat \<Rightarrow> bool" where
  "is_line_terminator c = (c \<in> set [10, 13, 0x2028, 0x2029])"

fun in_item :: "citem \<Rightarrow> nat \<Rightarrow> bool" where
  "in_item (Ch x) c = (c = x)"
| "in_item (Rng lo hi) c = (lo \<le> c \<and> c \<le> hi)"
| "in_item Space c = is_ws c"
| "in_item NonSpace c = (\<not> is_ws c)"
| "in_item Digit c = is_digit c"
| "in_item WordChar c = is_word_char c"

definition in_class :: "citem list \<Rightarrow> nat \<Rightarrow> bool" where
  "in_class items c = list_ex (\<lambda>i. in_item i c) items"

text \<open>The class members written as the characters of a literal, as in \<open>[.!?]\<close>.\<close>

definition chars :: "string \<Rightarrow> citem list" where
  "chars s = map (\<lambda>c. Ch (of_char c)) s"

text \<open>\<open>String.prototype.trim\<close>.\<close>

definition trim :: "jsstring \<Rightarrow> jsstring" where
  "trim t = rev (dropWhile is_ws (rev (dropWhile is_ws t)))"

text \<open>
  \<open>String.prototype.lastIndexOf\<close> with a search string: the greatest index at which the
  search string starts, or -1.
\<close>

fun indexes_of :: "jsstring \<Rightarrow> nat \<Rightarrow> jsstring \<Rightarrow> nat list" where
  "indexes_of s i [] = (if s = [] then [i] else [])"
| "indexes_of s i (c # t) =
     (if take (length s) (c # t) = s then [i] else []) @ indexes_of s (Suc i) t"

definition lastIndexOf :: "jsstring \<Rightarrow> jsstring \<Rightarrow> int" where
  "lastIndexOf t s = (case rev (indexes_of s 0 t) of [] \<Rightarrow> - 1 | i # _ \<Rightarrow> int i)"

text \<open>\<open>substring(0, e)\<close>; a negative end counts as 0, an end beyond the length as the length.\<close>

definition substring0 :: "jsstring \<Rightarrow> int \<Rightarrow> jsstring" where
  "substring0 t e = take (nat e) t"

section \<open>Regular expressions\<close>

text \<open>
  The regular expressions of the source are data: each literal \<open>/.../flags\<close> is a term of
  type \<open>regex\<close> and a \<open>flags\<close> record. The matcher is the backtracking matcher of
  ECMAScript restricted to the constructs the source uses; it returns the end states of all
  ways to match at the current position, in the order backtracking tries them, so that the
  head of the list is the match JavaScript reports.
\<close>

datatype regex =
    Str jsstring                   \<comment> \<open>a run of literal characters\<close>
  | Cls "citem list"               \<comment> \<open>\<open>[...]\<close>\<close>
  | NCls "citem list"              \<comment> \<open>\<open>[^...]\<close>\<close>
  | Dot                            \<comment> \<open>\<open>.\<close>\<close>
  | Seq regex regex
  | Alt regex regex                \<comment> \<open>\<open>r|s\<close>\<close>
  | Star regex                     \<comment> \<open>\<open>r*\<close>, greedy\<close>
  | Lazy regex                     \<comment> \<open>\<open>r*?\<close>\<close>
  | Opt regex                      \<comment> \<open>\<open>r?\<close>, greedy\<close>
  | Grp regex                      \<comment> \<open>\<open>(r)\<close>, the capture \<open>$1\<close>\<close>
  | Ahead regex                    \<comment> \<open>\<open>(?=r)\<close>\<close>
  | Bol                            \<comment> \<open>\<open>^\<close>\<close>
  | Eol                            \<comment> \<open>\<open>$\<close>\<close>
  | Wordb                          \<comment> \<open>\<open>\b\<close>\<close>

text \<open>\<open>r+\<close>, \<open>r{2,}\<close> and \<open>r{3,}\<close>, greedy.\<close>

definition Plus :: "regex \<Rightarrow> regex" where
  "Plus r = Seq r (Star r)"

definition AtLeast2 :: "regex \<Rightarrow> regex" where
  "AtLeast2 r = Seq r (Seq r (Star r))"

definition AtLeast3 :: "regex \<Rightarrow> regex" where
  "AtLeast3 r = Seq r (Seq r (Seq r (Star r)))"

record flags =
  ignoreCase :: bool
  multiline :: bool

definition no_flags :: flags where
  "no_flags = \<lparr>ignoreCase = False, multiline = False\<rparr>"

definition flags_i :: flags where
  "flags_i = \<lparr>ignoreCase = True, multiline = False\<rparr>"

definition flags_im :: flags where
  "flags_im = \<lparr>ignoreCase = True, multiline = True\<rparr>"

definition flags_m :: flags where
  "flags_m = \<lparr>ignoreCase = False, multiline = True\<rparr>"

text \<open>
  Canonicalize of ECMAScript for the \<open>i\<close> flag without \<open>u\<close>: a character is compared
  through its upper-case form. Every letter of the source's case-insensitive patterns is
  ASCII, and no character outside ASCII canonicalizes to an ASCII one, so only the mapping
  of \<open>a\<close>-\<open>z\<close> matters here.
\<close>

definition canon :: "flags \<Rightarrow> nat \<Rightarrow> nat" where
  "canon f c = (if ignoreCase f \<and> 97 \<le> c \<and> c \<le> 122 then c - 32 else c)"

definition other_case :: "nat \<Rightarrow> nat" where
  "other_case c = (if 97 \<le> c \<and> c \<le> 122 then c - 32
                   else if 65 \<le> c \<and> c \<le> 90 then c + 32 else c)"

text \<open>
  A class contains a character when some member canonicalizes to the same character: the
  character itself or, under \<open>i\<close>, its other case.
\<close>

definition cls_match :: "flags \<Rightarrow> citem list \<Rightarrow> nat \<Rightarrow> bool" where
  "cls_match f items c = (in_class items c \<or> (ignoreCase f \<and> in_class items (other_case c)))"

text \<open>
  The matcher's state: the text behind the current position (nearest character first), the
  text ahead, and the last capture of group 1.
\<close>

record mstate =
  behind :: jsstring
  ahead :: jsstring
  cap :: "jsstring option"

definition consume :: "nat \<Rightarrow> mstate \<Rightarrow> mstate" where
  "consume n st = st\<lparr>behind := rev (take n (ahead st)) @ behind st, ahead := drop n (ahead st)\<rparr>"

text \<open>
  Repetition: an iteration that consumes nothing is rejected, as RepeatMatcher does; the
  greedy form tries one more iteration before stopping, the lazy form stops first.
\<close>

function star :: "bool \<Rightarrow> (mstate \<Rightarrow> mstate list) \<Rightarrow> mstate \<Rightarrow> mstate list" where
  "star greedy m st =
     (let more = concat (map (star greedy m)
                   (filter (\<lambda>st'. length (ahead st') < length (ahead st)) (m st)))
      in if greedy then more @ [st] else st # more)"
  by pat_completeness auto
termination
  by (relation "measure (\<lambda>(g, m, st). length (ahead st))") auto

declare star.simps [simp del]

definition at_word_boundary :: "mstate \<Rightarrow> bool" where
  "at_word_boundary st =
     ((case behind st of [] \<Rightarrow> False | c # _ \<Rightarrow> is_word_char c) \<noteq>
      (case ahead st of [] \<Rightarrow> False | c # _ \<Rightarrow> is_word_char c))"

primrec ends :: "flags \<Rightarrow> regex \<Rightarrow> mstate \<Rightarrow> mstate list" where
  "ends f (Str s) st =
     (if length s \<le> length (ahead st) \<and>
         map (canon f) (take (length s) (ahead st)) = map (canon f) s
      then [consume (length s) st] else [])"
| "ends f (Cls rs) st =
     (case ahead st of [] \<Rightarrow> []
      | c # _ \<Rightarrow> if cls_match f rs c then [consume 1 st] else [])"
| "ends f (NCls rs) st =
     (case ahead st of [] \<Rightarrow> []
      | c # _ \<Rightarrow> if cls_match f rs c then [] else [consume 1 st])"
| "ends f Dot st =
     (case ahead st of [] \<Rightarrow> []
      | c # _ \<Rightarrow> if is_line_terminator c then [] else [consume 1 st])"
| "ends f (Seq r1 r2) st = concat (map (ends f r2) (ends f r1 st))"
| "ends f (Alt r1 r2) st = ends f r1 st @ ends f r2 st"
| "ends f (Star r) st = star True (ends f r) st"
| "ends f (Lazy r) st = star False (ends f r) st"
| "ends f (Opt r) st = ends f r st @ [st]"
| "ends f (Grp r) st =
     map (\<lambda>st'. st'\<lparr>cap := Some (take (length (ahead st) - length (ahead st')) (ahead st))\<rparr>)
       (ends f r st)"
| "ends f (Ahead r) st =
     (case ends f r st of [] \<Rightarrow> [] | st' # _ \<Rightarrow> [st\<lparr>cap := cap st'\<rparr>])"
| "ends f Bol st =
     (case behind st of [] \<Rightarrow> [st]
      | c # _ \<Rightarrow> if multiline f \<and> is_line_terminator c then [st] else [])"
| "ends f Eol st =
     (case ahead st of [] \<Rightarrow> [st]
      | c # _ \<Rightarrow> if multiline f \<and> is_line_terminator c then [st] else [])"
| "ends f Wordb st = (if at_word_boundary st then [st] else [])"

text \<open>The match at the current position, if any: the first end state.\<close>

definition match_here :: "flags \<Rightarrow> regex \<Rightarrow> jsstring \<Rightarrow> jsstring \<Rightarrow> mstate option" where
  "match_here f r b a =
     (case ends f r \<lparr>behind = b, ahead = a, cap = None\<rparr> of [] \<Rightarrow> None | st # _ \<Rightarrow> Some st)"

text \<open>
  Replacement strings of the source are literal text with at most the reference \<open>$1\<close>.
\<close>

datatype ritem = Txt jsstring | G1

definition expand :: "ritem list \<Rightarrow> mstate \<Rightarrow> jsstring" where
  "expand rep st =
     concat (map (\<lambda>i. case i of Txt s \<Rightarrow> s
                      | G1 \<Rightarrow> (case cap st of None \<Rightarrow> [] | Some s \<Rightarrow> s)) rep)"

text \<open>
  \<open>text.replace(/r/g, rep)\<close>: scan from the left; where the expression does not match, the
  character is copied and the scan moves on by one; after a match the scan continues at its
  end, and after an empty match one character further.
\<close>

fun replace_scan :: "flags \<Rightarrow> regex \<Rightarrow> ritem list \<Rightarrow> jsstring \<Rightarrow> jsstring \<Rightarrow> jsstring" where
  "replace_scan f r rep b a =
     (case match_here f r b a of
        None \<Rightarrow> (case a of [] \<Rightarrow> [] | c # a' \<Rightarrow> c # replace_scan f r rep (c # b) a')
      | Some st \<Rightarrow>
          expand rep st @
          (if length (ahead st) < length a then replace_scan f r rep (behind st) (ahead st)
           else (case a of [] \<Rightarrow> [] | c # a' \<Rightarrow> c # replace_scan f r rep (c # b) a')))"

declare replace_scan.simps [simp del]

definition replace_all :: "flags \<Rightarrow> regex \<Rightarrow> ritem list \<Rightarrow> jsstring \<Rightarrow> jsstring" where
  "replace_all f r rep t = replace_scan f r rep [] t"

text \<open>\<open>text.match(/r/g)\<close>: the matched substrings, found by the same scan.\<close>

fun match_scan :: "flags \<Rightarrow> regex \<Rightarrow> jsstring \<Rightarrow> jsstring \<Rightarrow> jsstring list" where
  "match_scan f r b a =
     (case match_here f r b a of
        None \<Rightarrow> (case a of [] \<Rightarrow> [] | c # a' \<Rightarrow> match_scan f r (c # b) a')
      | Some st \<Rightarrow>
          take (length a - length (ahead st)) a #
          (if length (ahead st) < length a then match_scan f r (behind st) (ahead st)
           else (case a of [] \<Rightarrow> [] | c # a' \<Rightarrow> match_scan f r (c # b) a')))"

declare match_scan.simps [simp del]

definition match_all :: "flags \<Rightarrow> regex \<Rightarrow> jsstring \<Rightarrow> jsstring list" where
  "match_all f r t = match_scan f r [] t"

text \<open>\<open>/r/.test(text)\<close> for an expression without the \<open>g\<close> flag: a match at some position.\<close>

fun test_scan :: "flags \<Rightarrow> regex \<Rightarrow> jsstring \<Rightarrow> jsstring \<Rightarrow> bool" where
  "test_scan f r b [] = (match_here f r b [] \<noteq> None)"
| "test_scan f r b (c # a) = (match_here f r b (c # a) \<noteq> None \<or> test_scan f r (c # b) a)"

definition test :: "flags \<Rightarrow> regex \<Rightarrow> jsstring \<Rightarrow> bool" where
  "test f r t = test_scan f r [] t"

text \<open>
  \<open>text.split(sep)\<close>: the pieces between the matches of the separator. A match is looked
  for at every position before the end; an empty match right at the start of the current
  piece does not split.
\<close>

fun split_scan :: "flags \<Rightarrow> regex \<Rightarrow> jsstring \<Rightarrow> jsstring \<Rightarrow> jsstring \<Rightarrow> jsstring list" where
  "split_scan f r b piece [] = [rev piece]"
| "split_scan f r b piece (c # a) =
     (case match_here f r b (c # a) of
        None \<Rightarrow> split_scan f r (c # b) (c # piece) a
      | Some st \<Rightarrow>
          if length (ahead st) < length (c # a)
          then rev piece # split_scan f r (behind st) [] (ahead st)
          else if piece = [] then split_scan f r (c # b) [c] a
          else rev piece # split_scan f r (c # b) [c] a)"

definition split :: "flags \<Rightarrow> regex \<Rightarrow> jsstring \<Rightarrow> jsstring list" where
  "split f r t =
     (if t = [] then (if match_here f r [] [] = None then [[]] else [])
      else split_scan f r [] [] t)"

section \<open>JavaScript numbers\<close>

text \<open>
  \<open>maxTokens\<close> and \<open>temperature\<close> have the TypeScript type \<open>number\<close>: a finite value,
  an infinity or NaN. \<open>Math.max\<close> and \<open>Math.min\<close> return one of their arguments, and
  NaN as soon as one argument is NaN; every comparison with NaN is false. Finite values are
  modelled as reals (rounding plays no part in selecting an argument).
\<close>

datatype jsnum = NaN | NegInf | Fin real | PosInf

fun js_le :: "jsnum \<Rightarrow> jsnum \<Rightarrow> bool" where
  "js_le NaN _ = False"
| "js_le _ NaN = False"
| "js_le NegInf _ = True"
| "js_le _ PosInf = True"
| "js_le (Fin a) (Fin b) = (a \<le> b)"
| "js_le (Fin a) NegInf = False"
| "js_le PosInf (Fin b) = False"
| "js_le PosInf NegInf = False"

definition Math_max :: "jsnum \<Rightarrow> jsnum \<Rightarrow> jsnum" where
  "Math_max a b = (if a = NaN \<or> b = NaN then NaN else if js_le a b then b else a)"

definition Math_min :: "jsnum \<Rightarrow> jsnum \<Rightarrow> jsnum" where
  "Math_min a b = (if a = NaN \<or> b = NaN then NaN else if js_le a b then a else b)"

section \<open>The API client (utils/api.ts, the validating version)\<close>

record aiconfig =
  model :: jsstring
  temperature :: jsnum
  maxTokens :: jsnum
  baseUrl :: jsstring

datatype role = User | Assistant | System

record chat_message =
  role :: role
  content :: jsstring
  timestamp :: nat

text \<open>
  \<open>ChatResponse.error\<close> is the message of the caught error. The two messages the client
  builds from an HTTP status keep the status as a number here.
\<close>

datatype error_info =
    HttpStatus nat "jsstring option"   \<comment> \<open>\<open>HTTP ${status}: ${errorText}\<close> or \<open>HTTP ${status}\<close>\<close>
  | ErrorMessage jsstring              \<comment> \<open>\<open>error.message\<close>\<close>

record chat_response =
  message :: jsstring
  success :: bool
  error :: "error_info option"

text \<open>
  Of \<open>OllamaResponse\<close> the client reads \<open>response\<close>, \<open>done\<close> and \<open>context\<close>; the last
  two are \<open>is_done\<close> and \<open>resp_context\<close> here, an absent \<open>context\<close> being \<open>None\<close>.
\<close>

record ollama_response =
  response :: jsstring
  is_done :: bool
  resp_context :: "nat list option"

text \<open>
  The state of an \<open>APIClient\<close>: its two private fields, \<open>this.config\<close> and
  \<open>this.context\<close> (\<open>stored_context\<close> here), the continuation token.
\<close>

record api_client =
  config :: aiconfig
  stored_context :: "nat list"

text \<open>\<open>DEFAULT_CONFIG.ai\<close> of utils/config.ts.\<close>

definition DEFAULT_AI_CONFIG :: aiconfig where
  "DEFAULT_AI_CONFIG =
     \<lparr>model = str ''qwen2.5:0.5b'', temperature = Fin 0.7, maxTokens = Fin 1000,
      baseUrl = str ''http://localhost:11434''\<rparr>"

definition validateConfig :: "aiconfig \<Rightarrow> aiconfig" where
  "validateConfig cfg =
     cfg\<lparr>maxTokens := Math_max (maxTokens cfg) (Fin 1500),
         temperature := Math_min (Math_max (temperature cfg) (Fin 0.1)) (Fin 1.2)\<rparr>"

definition new_APIClient :: "aiconfig \<Rightarrow> api_client" where
  "new_APIClient cfg = \<lparr>config = validateConfig cfg, stored_context = []\<rparr>"

definition updateConfig :: "api_client \<Rightarrow> aiconfig \<Rightarrow> api_client" where
  "updateConfig this cfg = this\<lparr>config := validateConfig cfg\<rparr>"

definition clearContext :: "api_client \<Rightarrow> api_client" where
  "clearContext this = this\<lparr>stored_context := []\<rparr>"

subsection \<open>The prompt\<close>

definition join_lines :: "jsstring list \<Rightarrow> jsstring" where
  "join_lines ls = concat (case ls of [] \<Rightarrow> [] | l # rest \<Rightarrow> l # map (\<lambda>x. 10 # x) rest)"

definition systemPrompt :: jsstring where
  "systemPrompt = join_lines
    [str ''Kamu adalah Asistenqu, asisten AI berbahasa Indonesia.'',
     [],
     str ''ATURAN PENTING:'',
     str ''1. WAJIB berbicara dalam bahasa Indonesia SAJA, jangan gunakan bahasa lain'',
     str ''2. Jika perlu berpikir: <think>pemikiran dalam bahasa Indonesia</think>'',
     str ''3. SELALU tutup tag </think> sebelum respons'',
     str ''4. Respons maksimal 2-3 kalimat setelah </think>'',
     str ''5. Gunakan gaya bicara natural dan ramah'',
     [],
     str ''Contoh format yang benar:'',
     str ''<think>Saya perlu menjawab pertanyaan user dengan ramah</think>'',
     str ''Halo! Saya baik-baik saja, terima kasih sudah bertanya.'',
     [],
     str ''Hindari:'',
     str ''- Bahasa Inggris atau bahasa lain'',
     str ''- Respons terlalu panjang'',
     str ''- Tag <think> tidak ditutup'',
     [],
     str ''Kamu sedang berbicara via voice call.'']"

fun history_lines :: "chat_message list \<Rightarrow> jsstring" where
  "history_lines [] = []"
| "history_lines (msg # rest) =
     (if role msg = User then str ''User: '' @ content msg @ [10]
      else if role msg = Assistant then str ''Asistenqu: '' @ content msg @ [10]
      else []) @ history_lines rest"

definition buildStructuredPrompt :: "jsstring \<Rightarrow> chat_message list \<Rightarrow> jsstring" where
  "buildStructuredPrompt msg conversationHistory =
     (let recentHistory = drop (length conversationHistory - 3) conversationHistory
      in systemPrompt @ [10, 10] @ history_lines recentHistory @
         str ''User: '' @ msg @ [10] @ str ''Asistenqu: '')"

subsection \<open>validateResponse\<close>

record validation =
  isComplete :: bool
  cleaned :: jsstring
  issues :: "jsstring list"

definition IncompleteThink :: jsstring where
  "IncompleteThink = str ''Incomplete <think> tags detected''"

definition NonIndonesian :: jsstring where
  "NonIndonesian = str ''Contains non-Indonesian characters''"

definition AppearsTruncated :: jsstring where
  "AppearsTruncated = str ''Response appears to be truncated''"

definition clarification :: jsstring where
  "clarification = str ''Maaf, bisa tolong ulangi pertanyaannya?''"

text \<open>
  \<open>/<think>/g\<close>, \<open>/<\/think>/g\<close>, \<open>/[\u4e00-\u9fff]/\<close> and \<open>/[.!?\u3002][\s]*$/\<close>
  (the last class member is the ideographic full stop, written by its code here).
\<close>

definition re_open_tag :: regex where
  "re_open_tag = Str (str ''<think>'')"

definition re_close_tag :: regex where
  "re_close_tag = Str (str ''</think>'')"

definition re_cjk :: regex where
  "re_cjk = Cls [Rng 0x4E00 0x9FFF]"

definition re_proper_ending :: regex where
  "re_proper_ending = Seq (Cls (chars ''.!?'' @ [Ch 0x3002])) (Seq (Star (Cls [Space])) Eol)"

definition openThinkTags :: "jsstring \<Rightarrow> nat" where
  "openThinkTags resp = length (match_all no_flags re_open_tag resp)"

definition closeThinkTags :: "jsstring \<Rightarrow> nat" where
  "closeThinkTags resp = length (match_all no_flags re_close_tag resp)"

definition hasProperEnding :: "jsstring \<Rightarrow> bool" where
  "hasProperEnding resp = test no_flags re_proper_ending (trim resp)"

text \<open>The text kept when more spans are opened than closed.\<close>

definition cut_unclosed :: "jsstring \<Rightarrow> jsstring" where
  "cut_unclosed resp =
     (let lastOpenThink = lastIndexOf resp (str ''<think>'');
          lastCloseThink = lastIndexOf resp (str ''</think>'')
      in if lastOpenThink > lastCloseThink then trim (substring0 resp lastOpenThink)
         else trim resp)"

definition validateResponse :: "jsstring \<Rightarrow> validation" where
  "validateResponse resp =
     (let unclosed = openThinkTags resp > closeThinkTags resp;
          cleaned1 = (if unclosed then cut_unclosed resp else trim resp);
          issues1 = (if unclosed then [IncompleteThink] else []);
          issues2 = issues1 @ (if test no_flags re_cjk resp then [NonIndonesian] else []);
          hasThinkingComplete = (openThinkTags resp = closeThinkTags resp);
          issues3 = issues2 @
            (if length resp > 50 \<and> \<not> hasProperEnding resp \<and> \<not> hasThinkingComplete
             then [AppearsTruncated] else []);
          cleaned2 = (if cleaned1 = [] \<or> cleaned1 = str ''Asistenqu:'' then clarification
                      else cleaned1)
      in \<lparr>isComplete = (issues3 = []), cleaned = cleaned2, issues = issues3\<rparr>)"

subsection \<open>The backend\<close>

text \<open>
  A request to \<open>/api/generate\<close> and what can come back: the promise rejects (no connection,
  or a body that cannot be read), the status is not ok, or a JSON body arrives. The backend
  is a queue of outcomes, one taken by each \<open>fetch\<close>, and a log of the requests issued; when
  the queue is empty the promise rejects.
\<close>

record gen_options =
  opt_temperature :: jsnum
  opt_num_predict :: jsnum
  opt_stop :: "jsstring list"
  opt_top_k :: nat
  opt_top_p :: real
  opt_repeat_penalty :: "real option"
  opt_seed :: "nat option"

record request =
  req_url :: jsstring
  req_model :: jsstring
  req_prompt :: jsstring
  req_stream :: bool
  req_options :: gen_options
  req_context :: "nat list option"

datatype fetch_outcome =
    Rejected jsstring
  | HttpFailure nat jsstring
  | HttpOk ollama_response

record world =
  pending :: "fetch_outcome list"
  sent :: "request list"

definition fetch :: "world \<Rightarrow> request \<Rightarrow> fetch_outcome \<times> world" where
  "fetch w req =
     (case pending w of
        [] \<Rightarrow> (Rejected (str ''Failed to fetch''), w\<lparr>sent := sent w @ [req]\<rparr>)
      | out # rest \<Rightarrow> (out, w\<lparr>pending := rest, sent := sent w @ [req]\<rparr>))"

subsection \<open>sendSimpleMessage and sendMessage\<close>

definition greeting :: jsstring where
  "greeting = str ''Halo! Ada yang bisa saya bantu?''"

definition simplePrompt :: "jsstring \<Rightarrow> jsstring" where
  "simplePrompt msg =
     str ''Kamu adalah Asistenqu. Jawab HANYA dalam bahasa Indonesia, maksimal 2 kalimat, natural dan ramah.''
     @ [10, 10] @ str ''User: '' @ msg @ [10] @ str ''Asistenqu: ''"

definition simple_request :: "api_client \<Rightarrow> jsstring \<Rightarrow> request" where
  "simple_request this msg =
     \<lparr>req_url = baseUrl (config this) @ str ''/api/generate'',
      req_model = model (config this),
      req_prompt = simplePrompt msg,
      req_stream = False,
      req_options = \<lparr>opt_temperature = Fin 0.7, opt_num_predict = Fin 200,
                      opt_stop = [str ''User:'', 10 # str ''User:'', str ''user:'', 10 # str ''user:''],
                      opt_top_k = 20, opt_top_p = 0.8,
                      opt_repeat_penalty = None, opt_seed = None\<rparr>,
      req_context = None\<rparr>"

text \<open>
  \<open>/[\u4e00-\u9fff]/g\<close> and the class \<open>[^\u0000-\u007F\u00A0-\u00FF\u00C0-\u00FF]\<close>
  (the source writes the last range with the letters themselves).
\<close>

definition re_non_latin :: regex where
  "re_non_latin = NCls [Rng 0 0x7F, Rng 0xA0 0xFF, Rng 0xC0 0xFF]"

definition clean_simple :: "jsstring \<Rightarrow> jsstring" where
  "clean_simple raw =
     (let cleanResponse = trim raw;
          cleanResponse = replace_all no_flags re_cjk [] cleanResponse;
          cleanResponse = replace_all no_flags re_non_latin [] cleanResponse
      in if cleanResponse = [] then greeting else cleanResponse)"

definition sendSimpleMessage ::
  "api_client \<Rightarrow> jsstring \<Rightarrow> chat_message list \<Rightarrow> world \<Rightarrow> chat_response \<times> api_client \<times> world" where
  "sendSimpleMessage this msg conversationHistory w =
     (case fetch w (simple_request this msg) of
        (HttpOk data, w') \<Rightarrow>
          (\<lparr>message = clean_simple (response data), success = True, error = None\<rparr>, this, w')
      | (HttpFailure status body, w') \<Rightarrow>
          (\<lparr>message = greeting, success = False, error = Some (HttpStatus status None)\<rparr>, this, w')
      | (Rejected m, w') \<Rightarrow>
          (\<lparr>message = greeting, success = False, error = Some (ErrorMessage m)\<rparr>, this, w'))"

text \<open>The seed is \<open>Math.floor(Math.random() * 1000000)\<close>: an input of the model.\<close>

definition primary_request :: "api_client \<Rightarrow> nat \<Rightarrow> jsstring \<Rightarrow> chat_message list \<Rightarrow> request" where
  "primary_request this seed msg conversationHistory =
     \<lparr>req_url = baseUrl (config this) @ str ''/api/generate'',
      req_model = model (config this),
      req_prompt = buildStructuredPrompt msg conversationHistory,
      req_stream = False,
      req_options = \<lparr>opt_temperature = temperature (config this),
                      opt_num_predict = maxTokens (config this),
                      opt_stop = [str ''User:'', 10 # str ''User:'', str ''Human:'', 10 # str ''Human:'',
                                  str ''user:'', 10 # str ''user:''],
                      opt_top_k = 40, opt_top_p = 0.9,
                      opt_repeat_penalty = Some 1.1, opt_seed = Some seed\<rparr>,
      req_context = (if length (stored_context this) > 0 then Some (stored_context this) else None)\<rparr>"

definition needs_retry :: "validation \<Rightarrow> bool" where
  "needs_retry v =
     (\<not> isComplete v \<and> (IncompleteThink \<in> set (issues v) \<or> NonIndonesian \<in> set (issues v)))"

definition sendMessage ::
  "api_client \<Rightarrow> nat \<Rightarrow> jsstring \<Rightarrow> chat_message list \<Rightarrow> world \<Rightarrow> chat_response \<times> api_client \<times> world" where
  "sendMessage this seed msg conversationHistory w =
     (case fetch w (primary_request this seed msg conversationHistory) of
        (HttpOk data, w') \<Rightarrow>
          (let v = validateResponse (response data);
               this' = (case resp_context data of None \<Rightarrow> this
                        | Some c \<Rightarrow> this\<lparr>stored_context := c\<rparr>)
           in if needs_retry v then sendSimpleMessage this' msg conversationHistory w'
              else (\<lparr>message = cleaned v, success = True, error = None\<rparr>, this', w'))
      | (HttpFailure status body, w') \<Rightarrow>
          (\<lparr>message = [], success = False, error = Some (HttpStatus status (Some body))\<rparr>, this, w')
      | (Rejected m, w') \<Rightarrow>
          (\<lparr>message = [], success = False, error = Some (ErrorMessage m)\<rparr>, this, w'))"

subsection \<open>sendMessageStream\<close>

text \<open>
  The streamed body is read chunk by chunk; each chunk is split into its non-blank lines and
  each line parsed as JSON, a line that does not parse being skipped. The stream is
  modelled after parsing: a list of chunks, each the list of its lines' parse results. Of the
  method, what it does with the response is modelled: the text it accumulates and the token
  it stores.
\<close>

fun read_lines :: "ollama_response option list \<Rightarrow> jsstring \<times> api_client \<Rightarrow> jsstring \<times> api_client" where
  "read_lines [] acc = acc"
| "read_lines (None # rest) acc = read_lines rest acc"
| "read_lines (Some data # rest) (fullResponse, this) =
     read_lines rest
       (if response data \<noteq> [] then fullResponse @ response data else fullResponse,
        case resp_context data of
          Some c \<Rightarrow> if is_done data then this\<lparr>stored_context := c\<rparr> else this
        | None \<Rightarrow> this)"

fun read_chunks :: "ollama_response option list list \<Rightarrow> jsstring \<times> api_client \<Rightarrow> jsstring \<times> api_client" where
  "read_chunks [] acc = acc"
| "read_chunks (chunk # rest) acc = read_chunks rest (read_lines chunk acc)"

datatype stream_outcome =
    StreamRejected jsstring
  | StreamHttpFailure nat jsstring
  | StreamNoBody
  | StreamOk "ollama_response option list list"

definition sendMessageStream :: "api_client \<Rightarrow> stream_outcome \<Rightarrow> chat_response \<times> api_client" where
  "sendMessageStream this out =
     (case out of
        StreamOk chunks \<Rightarrow>
          (case read_chunks chunks ([], this) of
             (fullResponse, this') \<Rightarrow>
               (\<lparr>message = cleaned (validateResponse fullResponse), success = True, error = None\<rparr>,
                this'))
      | StreamNoBody \<Rightarrow>
          (\<lparr>message = [], success = False, error = Some (ErrorMessage (str ''No response body''))\<rparr>, this)
      | StreamHttpFailure status body \<Rightarrow>
          (\<lparr>message = [], success = False, error = Some (HttpStatus status (Some body))\<rparr>, this)
      | StreamRejected m \<Rightarrow>
          (\<lparr>message = [], success = False, error = Some (ErrorMessage m)\<rparr>, this))"

text \<open>
  The states a client goes through in its lifetime: built by the constructor, changed by its
  public methods. \<open>P\<close> is what is known of the configurations handed to the constructor
  and to \<open>updateConfig\<close>.
\<close>

inductive lifetime :: "(aiconfig \<Rightarrow> bool) \<Rightarrow> api_client \<Rightarrow> bool" for P where
  l_new: "P cfg \<Longrightarrow> lifetime P (new_APIClient cfg)"
| l_updateConfig: "lifetime P this \<Longrightarrow> P cfg \<Longrightarrow> lifetime P (updateConfig this cfg)"
| l_clearContext: "lifetime P this \<Longrightarrow> lifetime P (clearContext this)"
| l_sendMessage: "lifetime P this \<Longrightarrow> lifetime P (fst (snd (sendMessage this seed msg h w)))"
| l_sendMessageStream: "lifetime P this \<Longrightarrow> lifetime P (snd (sendMessageStream this out))"

section \<open>The voice formatter (utils/voiceformatter.ts)\<close>

text \<open>
  \<open>VoiceFormatterConfig\<close>. The stage flags carry the suffix \<open>_on\<close>, the methods they
  switch having the same names.
\<close>

record voice_formatter_config =
  removeThinkTags_on :: bool
  removeMarkdown_on :: bool
  removeEmoticons_on :: bool
  normalizeNumbers_on :: bool
  normalizePunctuation_on :: bool
  maxLength :: "nat option"
  debug :: "bool option"

definition DEFAULT_VOICE_CONFIG :: voice_formatter_config where
  "DEFAULT_VOICE_CONFIG =
     \<lparr>removeThinkTags_on = True, removeMarkdown_on = True, removeEmoticons_on = True,
      normalizeNumbers_on = True, normalizePunctuation_on = True,
      maxLength = Some 500, debug = Some False\<rparr>"

text \<open>The exported singleton: the default configuration with logging switched on.\<close>

definition voiceFormatter :: voice_formatter_config where
  "voiceFormatter = DEFAULT_VOICE_CONFIG\<lparr>debug := Some True\<rparr>"

text \<open>\<open>[\s\S]\<close>: any character.\<close>

definition any_char :: regex where
  "any_char = Cls [Space, NonSpace]"

subsection \<open>removeThinkTags\<close>

definition think_pattern1 :: regex where
  \<comment> \<open>\<open>/<think>[\s\S]*?<\/think>/gi\<close>\<close>
  "think_pattern1 = Seq (Str (str ''<think>'')) (Seq (Lazy any_char) (Str (str ''</think>'')))"

definition think_pattern2 :: regex where
  \<comment> \<open>\<open>/<think[^>]*>[\s\S]*?<\/think>/gi\<close>\<close>
  "think_pattern2 =
     Seq (Str (str ''<think'')) (Seq (Star (NCls (chars ''>''))) (Seq (Str (str ''>''))
       (Seq (Lazy any_char) (Str (str ''</think>'')))))"

definition think_pattern3 :: regex where
  \<comment> \<open>\<open>/<think>[\s\S]*$/gi\<close>\<close>
  "think_pattern3 = Seq (Str (str ''<think>'')) (Seq (Star any_char) Eol)"

definition think_pattern4 :: regex where
  \<comment> \<open>\<open>/think[\s]*:[\s\S]*?(?=\n\n|$)/gi\<close>\<close>
  "think_pattern4 =
     Seq (Str (str ''think'')) (Seq (Star (Cls [Space])) (Seq (Str (str '':''))
       (Seq (Lazy any_char) (Ahead (Alt (Str [10, 10]) Eol)))))"

definition think_pattern5 :: regex where
  \<comment> \<open>\<open>/^think[\s\S]*?(?=\n[A-Z]|\n\n|$)/gim\<close>\<close>
  "think_pattern5 =
     Seq Bol (Seq (Str (str ''think'')) (Seq (Lazy any_char)
       (Ahead (Alt (Seq (Str [10]) (Cls [Rng 65 90])) (Alt (Str [10, 10]) Eol)))))"

definition think_line :: regex where
  \<comment> \<open>\<open>/^.*?think.*?$/gim\<close>\<close>
  "think_line = Seq Bol (Seq (Lazy Dot) (Seq (Str (str ''think'')) (Seq (Lazy Dot) Eol)))"

definition okay_let_me :: regex where
  \<comment> \<open>\<open>/Okay,.*?Let me.*?$/gim\<close>\<close>
  "okay_let_me =
     Seq (Str (str ''Okay,'')) (Seq (Lazy Dot) (Seq (Str (str ''Let me'')) (Seq (Lazy Dot) Eol)))"

definition i_need_to :: regex where
  \<comment> \<open>\<open>/I need to.*?$/gim\<close>\<close>
  "i_need_to = Seq (Str (str ''I need to'')) (Seq (Lazy Dot) Eol)"

definition first_then :: regex where
  \<comment> \<open>\<open>/First,.*?Then,.*?$/gim\<close>\<close>
  "first_then =
     Seq (Str (str ''First,'')) (Seq (Lazy Dot) (Seq (Str (str ''Then,'')) (Seq (Lazy Dot) Eol)))"

text \<open>The statements after the \<open>forEach\<close> over the first three patterns.\<close>

definition think_heuristics :: "jsstring \<Rightarrow> jsstring" where
  "think_heuristics t =
     (let cleaned = replace_all flags_i think_pattern4 [] t;
          cleaned = replace_all flags_im think_pattern5 [] cleaned;
          cleaned = replace_all flags_im think_line [] cleaned;
          cleaned = replace_all flags_im okay_let_me [] cleaned;
          cleaned = replace_all flags_im i_need_to [] cleaned;
          cleaned = replace_all flags_im first_then [] cleaned
      in cleaned)"

definition removeThinkTags :: "jsstring \<Rightarrow> jsstring" where
  "removeThinkTags t =
     (if t = [] then t
      else let cleaned = replace_all flags_i think_pattern1 [] t;
               cleaned = replace_all flags_i think_pattern2 [] cleaned;
               cleaned = replace_all flags_i think_pattern3 [] cleaned
           in think_heuristics cleaned)"

subsection \<open>removeMarkdown\<close>

text \<open>
  In source order: code blocks \<open>/```[\s\S]*?```/g\<close> and inline code \<open>/`([^`]+)`/g\<close>
  (the backquote is character 96); headers \<open>/^#+\s+/gm\<close>; bold and italic
  \<open>/\*\*([^*]+)\*\*/g\<close>, \<open>/\*([^*]+)\*/g\<close>, \<open>/__([^_]+)__/g\<close>, \<open>/_([^_]+)_/g\<close>; links
  \<open>/\[([^\]]+)\]\([^)]+\)/g\<close>; lists \<open>/^[\s]*[-*+]\s+/gm\<close> and \<open>/^\d+\.\s+/gm\<close>;
  blockquotes \<open>/^>\s+/gm\<close>.
\<close>

definition removeMarkdown :: "jsstring \<Rightarrow> jsstring" where
  "removeMarkdown t =
     (let cleaned = replace_all no_flags
            (Seq (Str [96, 96, 96]) (Seq (Lazy any_char) (Str [96, 96, 96]))) [] t;
          cleaned = replace_all no_flags
            (Seq (Str [96]) (Seq (Grp (Plus (NCls [Ch 96]))) (Str [96]))) [G1] cleaned;
          cleaned = replace_all flags_m
            (Seq Bol (Seq (Plus (Str (str ''#''))) (Plus (Cls [Space])))) [] cleaned;
          cleaned = replace_all no_flags
            (Seq (Str (str ''**'')) (Seq (Grp (Plus (NCls (chars ''*'')))) (Str (str ''**''))))
            [G1] cleaned;
          cleaned = replace_all no_flags
            (Seq (Str (str ''*'')) (Seq (Grp (Plus (NCls (chars ''*'')))) (Str (str ''*''))))
            [G1] cleaned;
          cleaned = replace_all no_flags
            (Seq (Str (str ''__'')) (Seq (Grp (Plus (NCls (chars ''_'')))) (Str (str ''__''))))
            [G1] cleaned;
          cleaned = replace_all no_flags
            (Seq (Str (str ''_'')) (Seq (Grp (Plus (NCls (chars ''_'')))) (Str (str ''_''))))
            [G1] cleaned;
          cleaned = replace_all no_flags
            (Seq (Str (str ''['')) (Seq (Grp (Plus (NCls (chars '']'')))) (Seq (Str (str ''](''))
               (Seq (Plus (NCls (chars '')''))) (Str (str '')''))))))
            [G1] cleaned;
          cleaned = replace_all flags_m
            (Seq Bol (Seq (Star (Cls [Space])) (Seq (Cls (chars ''-*+'')) (Plus (Cls [Space])))))
            [] cleaned;
          cleaned = replace_all flags_m
            (Seq Bol (Seq (Plus (Cls [Digit])) (Seq (Str (str ''.'')) (Plus (Cls [Space])))))
            [] cleaned;
          cleaned = replace_all flags_m
            (Seq Bol (Seq (Str (str ''>'')) (Plus (Cls [Space])))) [] cleaned
      in cleaned)"

subsection \<open>removeEmoticons\<close>

text \<open>
  Under the \<open>u\<close> flag an expression matches code points: a high surrogate followed by a
  low surrogate is one character. The text is decoded, matched, and encoded again.
\<close>

fun decode_utf16 :: "jsstring \<Rightarrow> nat list" where
  "decode_utf16 (h # l # rest) =
     (if 0xD800 \<le> h \<and> h \<le> 0xDBFF \<and> 0xDC00 \<le> l \<and> l \<le> 0xDFFF
      then (0x10000 + (h - 0xD800) * 0x400 + (l - 0xDC00)) # decode_utf16 rest
      else h # decode_utf16 (l # rest))"
| "decode_utf16 t = t"

definition encode_utf16 :: "nat list \<Rightarrow> jsstring" where
  "encode_utf16 cps =
     concat (map (\<lambda>cp. if 0x10000 \<le> cp
                         then [0xD800 + (cp - 0x10000) div 0x400, 0xDC00 + (cp - 0x10000) mod 0x400]
                         else [cp]) cps)"

definition replace_all_u :: "flags \<Rightarrow> regex \<Rightarrow> ritem list \<Rightarrow> jsstring \<Rightarrow> jsstring" where
  "replace_all_u f r rep t = encode_utf16 (replace_all f r rep (decode_utf16 t))"

text \<open>
  \<open>/[\u{1F600}-\u{1F64F}]|[\u{1F300}-\u{1F5FF}]|[\u{1F680}-\u{1F6FF}]|[\u{1F1E0}-\u{1F1FF}]|[\u{2600}-\u{26FF}]|[\u{2700}-\u{27BF}]/gu\<close>.
\<close>

definition emoji :: regex where
  "emoji =
     Alt (Cls [Rng 0x1F600 0x1F64F]) (Alt (Cls [Rng 0x1F300 0x1F5FF])
       (Alt (Cls [Rng 0x1F680 0x1F6FF]) (Alt (Cls [Rng 0x1F1E0 0x1F1FF])
         (Alt (Cls [Rng 0x2600 0x26FF]) (Cls [Rng 0x2700 0x27BF])))))"

text \<open>\<open>[)(\[\]{}|\\\/DPpoO@$*><^-]\<close>; the backslash is character 92.\<close>

definition emoticon_mouth :: "citem list" where
  "emoticon_mouth = chars '')([]{}|'' @ [Ch 92] @ chars ''/DPpoO@$*><^-''"

definition removeEmoticons :: "jsstring \<Rightarrow> jsstring" where
  "removeEmoticons t =
     (let cleaned = replace_all_u no_flags emoji [] t;
          cleaned = replace_all no_flags
            (Seq (Cls (chars '':;='')) (Seq (Opt (Str (str ''-''))) (Cls emoticon_mouth))) [] cleaned;
          cleaned = replace_all no_flags
            (Seq (Cls emoticon_mouth) (Seq (Opt (Str (str ''-''))) (Cls (chars '':;='')))) [] cleaned
      in cleaned)"

subsection \<open>normalizeNumbers\<close>

text \<open>\<open>/(\d+)%/g\<close>, \<open>/Rp\s?(\d+)/g\<close> and \<open>/\$(\d+)/g\<close>.\<close>

definition normalizeNumbers :: "jsstring \<Rightarrow> jsstring" where
  "normalizeNumbers t =
     (let normalized = replace_all no_flags
            (Seq (Grp (Plus (Cls [Digit]))) (Str (str ''%''))) [G1, Txt (str '' persen'')] t;
          normalized = replace_all no_flags
            (Seq (Str (str ''Rp'')) (Seq (Opt (Cls [Space])) (Grp (Plus (Cls [Digit])))))
            [G1, Txt (str '' rupiah'')] normalized;
          normalized = replace_all no_flags
            (Seq (Str (str ''$'')) (Grp (Plus (Cls [Digit])))) [G1, Txt (str '' dollar'')] normalized
      in normalized)"

subsection \<open>normalizePunctuation\<close>

definition abbreviations :: "(string \<times> string) list" where
  "abbreviations =
     [(''dll'', ''dan lain lain''), (''dsb'', ''dan sebagainya''), (''dst'', ''dan seterusnya''),
      (''yg'', ''yang''), (''dgn'', ''dengan''), (''utk'', ''untuk''), (''dr'', ''dari''),
      (''krn'', ''karena''), (''tdk'', ''tidak''), (''blm'', ''belum''), (''sdh'', ''sudah''),
      (''hrs'', ''harus''), (''kalo'', ''kalau'')]"

text \<open>\<open>new RegExp(`\\b${abbr}\\b`, "gi")\<close>.\<close>

definition abbr_regex :: "string \<Rightarrow> regex" where
  "abbr_regex abbr = Seq Wordb (Seq (Str (str abbr)) Wordb)"

definition normalizePunctuation :: "jsstring \<Rightarrow> jsstring" where
  "normalizePunctuation t =
     (let normalized = replace_all no_flags (AtLeast2 (Cls (chars ''!''))) [Txt (str ''!'')] t;
          normalized = replace_all no_flags (AtLeast2 (Cls (chars ''?''))) [Txt (str ''?'')] normalized;
          normalized = replace_all no_flags (AtLeast3 (Cls (chars ''.''))) [Txt (str ''...'')] normalized
      in fold (\<lambda>(abbr, full) normalized.
                 replace_all flags_i (abbr_regex abbr) [Txt (str full)] normalized)
           abbreviations normalized)"

subsection \<open>cleanupText\<close>

text \<open>
  The classes \<open>[#@$%^&*+=\[\]{}\\|<>]\<close> and the quote class, whose members are the
  characters 34, 39, 34, 34 and 96. In source order: \<open>/\s+/g\<close>, \<open>/\n+/g\<close>, the two
  classes, \<open>/\([^)]*\)/g\<close>, \<open>/https?:\/\/[^\s]+/g\<close> and \<open>/\s{2,}/g\<close>.
\<close>

definition special_chars :: "citem list" where
  "special_chars = chars ''#@$%^&*+=[]{}'' @ [Ch 92] @ chars ''|<>''"

definition quote_chars :: "citem list" where
  "quote_chars = [Ch 34, Ch 39, Ch 34, Ch 34, Ch 96]"

definition cleanupText :: "jsstring \<Rightarrow> jsstring" where
  "cleanupText t =
     (let cleaned = replace_all no_flags (Plus (Cls [Space])) [Txt (str '' '')] t;
          cleaned = replace_all no_flags (Plus (Str [10])) [Txt (str '' '')] cleaned;
          cleaned = replace_all no_flags (Cls special_chars) [] cleaned;
          cleaned = replace_all no_flags (Cls quote_chars) [] cleaned;
          cleaned = replace_all no_flags
            (Seq (Str (str ''('')) (Seq (Star (NCls (chars '')''))) (Str (str '')'')))) [] cleaned;
          cleaned = replace_all no_flags
            (Seq (Str (str ''http'')) (Seq (Opt (Str (str ''s''))) (Seq (Str (str ''://''))
               (Plus (NCls [Space]))))) [] cleaned;
          cleaned = replace_all no_flags (AtLeast2 (Cls [Space])) [Txt (str '' '')] cleaned
      in cleaned)"

subsection \<open>limitLength\<close>

text \<open>The loop over the sentences; \<open>break\<close> returns the result built so far.\<close>

fun sentence_loop :: "nat \<Rightarrow> jsstring list \<Rightarrow> jsstring \<Rightarrow> jsstring" where
  "sentence_loop maxLen [] result = result"
| "sentence_loop maxLen (sentence # rest) result =
     (let trimmedSentence = trim sentence
      in if trimmedSentence = [] then sentence_loop maxLen rest result
         else if length (result @ trimmedSentence @ str ''.'') > maxLen then result
         else sentence_loop maxLen rest
                (result @ (if result \<noteq> [] then str '' '' else []) @ trimmedSentence @ str ''.''))"

text \<open>The loop over the words: \<open>while (words.length > 0 && result.length < maxLength)\<close>.\<close>

fun word_loop :: "nat \<Rightarrow> jsstring list \<Rightarrow> jsstring \<Rightarrow> jsstring" where
  "word_loop maxLen [] result = result"
| "word_loop maxLen (nextWord # wds) result =
     (if length result < maxLen
      then (if length (result @ str '' '' @ nextWord) > maxLen then result
            else word_loop maxLen wds (result @ (if result \<noteq> [] then str '' '' else []) @ nextWord))
      else result)"

definition limitLength :: "jsstring \<Rightarrow> nat \<Rightarrow> jsstring" where
  "limitLength t maxLen =
     (if length t \<le> maxLen then t
      else let sentences = split no_flags (Plus (Cls (chars ''.!?''))) t;
               result = sentence_loop maxLen sentences [];
               result = (if length result = 0
                         then word_loop maxLen (split no_flags (Str (str '' '')) t) result @ str ''.''
                         else result)
           in if result \<noteq> [] then result else take maxLen t)"

subsection \<open>formatForVoice and isSuitableForVoice\<close>

text \<open>
  \<open>maxLength\<close> is an optional number; the limit is applied when it is truthy, that is
  neither absent nor 0. Limits are natural numbers here.
\<close>

definition formatForVoice :: "voice_formatter_config \<Rightarrow> jsstring \<Rightarrow> jsstring" where
  "formatForVoice cfg t =
     (let formattedText = t;
          formattedText = (if removeThinkTags_on cfg then removeThinkTags formattedText else formattedText);
          formattedText = (if removeMarkdown_on cfg then removeMarkdown formattedText else formattedText);
          formattedText = (if removeEmoticons_on cfg then removeEmoticons formattedText else formattedText);
          formattedText = (if normalizeNumbers_on cfg then normalizeNumbers formattedText else formattedText);
          formattedText = (if normalizePunctuation_on cfg then normalizePunctuation formattedText
                           else formattedText);
          formattedText = cleanupText formattedText;
          formattedText = (case maxLength cfg of
                             None \<Rightarrow> formattedText
                           | Some n \<Rightarrow> if n = 0 then formattedText else limitLength formattedText n)
      in trim formattedText)"

text \<open>
  \<open>readableChars / totalChars > 0.5\<close>: both are string lengths, and for them the
  floating-point quotient exceeds 0.5 exactly when the exact quotient does.
\<close>

definition readable_class :: "citem list" where
  "readable_class = [WordChar, Space] @ chars ''.,!?''"

definition isSuitableForVoice :: "voice_formatter_config \<Rightarrow> jsstring \<Rightarrow> bool" where
  "isSuitableForVoice cfg t =
     (let formatted = formatForVoice cfg t
      in if trim formatted = [] then False
         else let readableChars = length (replace_all no_flags (NCls readable_class) [] formatted);
                  totalChars = length formatted
              in totalChars > 0 \<and> real readableChars / real totalChars > 0.5)"

definition isVoiceSuitable :: "jsstring \<Rightarrow> bool" where
  "isVoiceSuitable t = isSuitableForVoice voiceFormatter t"

section \<open>Notions used in the statements\<close>

text \<open>The bounds the configuration is clamped to, and a configuration free of NaN.\<close>

definition config_ok :: "aiconfig \<Rightarrow> bool" where
  "config_ok cfg =
     (js_le (Fin 1500) (maxTokens cfg) \<and> js_le (Fin 0.1) (temperature cfg) \<and>
      js_le (temperature cfg) (Fin 1.2))"

definition numeric :: "aiconfig \<Rightarrow> bool" where
  "numeric cfg = (maxTokens cfg \<noteq> NaN \<and> temperature cfg \<noteq> NaN)"


text \<open>Validation reported one of the two issues that call for a retry.\<close>

definition serious :: "validation \<Rightarrow> bool" where
  "serious v = (IncompleteThink \<in> set (issues v) \<or> NonIndonesian \<in> set (issues v))"

text \<open>The primary call got a response, and its validation reported a serious issue.\<close>

definition retried :: "world \<Rightarrow> bool" where
  "retried w =
     (case pending w of HttpOk data # _ \<Rightarrow> serious (validateResponse (response data)) | _ \<Rightarrow> False)"

text \<open>What the backend answers to the retry: the second outcome of the queue.\<close>

definition retry_outcome :: "world \<Rightarrow> fetch_outcome" where
  "retry_outcome w =
     (case tl (pending w) of [] \<Rightarrow> Rejected (str ''Failed to fetch'') | out # _ \<Rightarrow> out)"

text \<open>
  A sample turn: the primary call returns text with three start markers and one end marker,
  the retry returns text that opens a reasoning span again.
\<close>

definition sample_client :: api_client where
  "sample_client = new_APIClient DEFAULT_AI_CONFIG"

definition sample_raw :: jsstring where
  "sample_raw = str ''<think>a<think>b</think><think>c''"

definition sample_world :: world where
  "sample_world =
     \<lparr>pending = [HttpOk \<lparr>response = sample_raw, is_done = True, resp_context = Some [1, 2, 3]\<rparr>,
                 HttpOk \<lparr>response = str ''<think>Halo'', is_done = True, resp_context = Some [4, 5]\<rparr>],
      sent = []\<rparr>"

text \<open>
  A marker stands at the start of a text, upper and lower case alike, as the sanitizer's
  expressions recognise it; the number of places where it stands; the text before the first.
\<close>

definition ci_prefix :: "jsstring \<Rightarrow> jsstring \<Rightarrow> bool" where
  "ci_prefix s t =
     (length s \<le> length t \<and> map (canon flags_i) (take (length s) t) = map (canon flags_i) s)"

fun count_ci :: "jsstring \<Rightarrow> jsstring \<Rightarrow> nat" where
  "count_ci s [] = 0"
| "count_ci s (c # t) = (if ci_prefix s (c # t) then 1 else 0) + count_ci s t"

fun before_ci :: "jsstring \<Rightarrow> jsstring \<Rightarrow> jsstring" where
  "before_ci s [] = []"
| "before_ci s (c # t) = (if ci_prefix s (c # t) then [] else c # before_ci s t)"

text \<open>Readable characters: word characters, whitespace and the four marks \<open>. , ! ?\<close>.\<close>

definition readable :: "nat \<Rightarrow> bool" where
  "readable c = (is_word_char c \<or> is_ws c \<or> c \<in> set [46, 44, 33, 63])"

text \<open>
  Plain text, on which the sanitizer has nothing left to do. A plain character is a code
  unit that none of the sanitizer's patterns asks for: it is no surrogate and lies outside
  the range U+2600 to U+27BF of the emoji pattern, it is no whitespace other than the blank,
  it belongs to neither of the two classes the cleanup deletes, and it is none of
  \<open>( : ; _\<close>. Letters of every script, digits, the blank, the marks \<open>. , ! ?\<close> and
  the hyphen are plain.
\<close>

definition plain_char :: "nat \<Rightarrow> bool" where
  "plain_char c =
     (c < 0x10000 \<and> \<not> (0xD800 \<le> c \<and> c \<le> 0xDFFF) \<and> \<not> (0x2600 \<le> c \<and> c \<le> 0x27BF) \<and>
      (is_ws c \<longrightarrow> c = 32) \<and> \<not> cls_match no_flags special_chars c \<and>
      \<not> cls_match no_flags quote_chars c \<and> c \<notin> set [40, 58, 59, 95])"

text \<open>One text occurs in another, letter case respected.\<close>

fun contains :: "jsstring \<Rightarrow> jsstring \<Rightarrow> bool" where
  "contains s [] = (s = [])"
| "contains s (c # t) = (take (length s) (c # t) = s \<or> contains s t)"

text \<open>
  A word occurs in a text the way \<open>\b...\b\<close> under the \<open>i\<close> flag finds it: at some
  position it stands, upper and lower case alike, with a word boundary before it and after
  it. The second argument is the text behind the position, nearest character first.
\<close>

fun word_in :: "jsstring \<Rightarrow> jsstring \<Rightarrow> jsstring \<Rightarrow> bool" where
  "word_in s b [] = False"
| "word_in s b (c # a) =
     ((ci_prefix s (c # a) \<and> at_word_boundary \<lparr>behind = b, ahead = c # a, cap = None\<rparr> \<and>
       at_word_boundary (consume (length s) \<lparr>behind = b, ahead = c # a, cap = None\<rparr>)) \<or>
      word_in s (c # b) a)"

text \<open>
  A plain text consists of plain characters; it neither starts nor ends with a blank and
  does not start with a digit (a numbered list item); it has no two blanks in a row, no
  repeated \<open>!\<close> or \<open>?\<close>, no more than three full stops in a row, no hyphen before a
  blank (a list item) and no \<open>Rp\<close>; it contains, in any letter case, none of the phrases
  the reasoning heuristics look for and none of the abbreviations as a word of its own; and
  it is within the maximum length, if one is set.
\<close>

definition plain_text :: "voice_formatter_config \<Rightarrow> jsstring \<Rightarrow> bool" where
  "plain_text cfg y =
     (list_all plain_char y \<and>
      (y = [] \<or> (hd y \<noteq> 32 \<and> last y \<noteq> 32 \<and> \<not> is_digit (hd y))) \<and>
      list_all (\<lambda>s. \<not> contains (str s) y) [''  '', ''!!'', ''??'', ''....'', ''- '', ''Rp''] \<and>
      list_all (\<lambda>s. count_ci (str s) y = 0) [''think'', ''Okay,'', ''I need to'', ''First,''] \<and>
      list_all (\<lambda>(abbr, full). \<not> word_in (str abbr) [] y) abbreviations \<and>
      (case maxLength cfg of None \<Rightarrow> True | Some n \<Rightarrow> n = 0 \<or> length y \<le> n))"

section \<open>What a match requires\<close>



section \<open>Properties\<close>

subsection \<open>The matcher moves forward through the text\<close>

lemma consume_0: "consume 0 st = st"
  by (simp add: consume_def)

lemma ahead_consume: "ahead (consume n st) = drop n (ahead st)"
  by (simp add: consume_def)

lemma behind_consume: "behind (consume n st) = rev (take n (ahead st)) @ behind st"
  by (simp add: consume_def)

lemma cap_consume: "cap (consume n st) = cap st"
  by (simp add: consume_def)

lemma consume_consume: "consume m (consume n st) = consume (n + m) st"
  by (cases st) (simp add: consume_def take_add add.commute[of m n])

lemma star_moved:
  "(\<And>s s'. s' \<in> set (m s) \<Longrightarrow> \<exists>u. ahead s = u @ ahead s' \<and> behind s' = rev u @ behind s) \<Longrightarrow>
   st' \<in> set (star g m st) \<Longrightarrow> \<exists>u. ahead st = u @ ahead st' \<and> behind st' = rev u @ behind st"
proof (induction g m st arbitrary: st' rule: star.induct)
  case (1 greedy m st)
  note step = "1.prems"(1)
  from "1.prems"(2) have "st' = st \<or>
      (\<exists>x \<in> set (m st). length (ahead x) < length (ahead st) \<and> st' \<in> set (star greedy m x))"
    by (subst (asm) star.simps) (auto simp: Let_def split: if_splits)
  then show ?case
  proof
    assume "st' = st" then show ?thesis by simp
  next
    assume "\<exists>x \<in> set (m st). length (ahead x) < length (ahead st) \<and> st' \<in> set (star greedy m x)"
    then obtain x where x: "x \<in> set (m st)" "length (ahead x) < length (ahead st)"
      "st' \<in> set (star greedy m x)" by blast
    from "1.IH"[of x st'] x step obtain u where u: "ahead x = u @ ahead st'" "behind st' = rev u @ behind x"
      by auto
    from step[OF x(1)] obtain v where v: "ahead st = v @ ahead x" "behind x = rev v @ behind st"
      by auto
    show ?thesis using u v by (intro exI[of _ "v @ u"]) simp
  qed
qed

lemma ends_moved:
  "st' \<in> set (ends f r st) \<Longrightarrow> \<exists>u. ahead st = u @ ahead st' \<and> behind st' = rev u @ behind st"
proof (induction r arbitrary: st st')
  case (Str s)
  then show ?case
    by (auto simp: consume_def split: if_splits intro!: exI[of _ "take (length s) (ahead st)"])
next
  case (Cls x)
  then show ?case
    by (auto simp: consume_def split: if_splits list.splits)
next
  case (NCls x)
  then show ?case
    by (auto simp: consume_def split: if_splits list.splits)
next
  case Dot
  then show ?case
    by (auto simp: consume_def split: if_splits list.splits)
next
  case (Seq r1 r2)
  from Seq.prems obtain s1 where s1: "s1 \<in> set (ends f r1 st)" "st' \<in> set (ends f r2 s1)" by auto
  from Seq.IH(1)[OF s1(1)] Seq.IH(2)[OF s1(2)] show ?case
    by (metis append.assoc rev_append)
next
  case (Alt r1 r2)
  then show ?case by auto
next
  case (Star r)
  then show ?case using star_moved[of "ends f r" st' True st] by simp
next
  case (Lazy r)
  then show ?case using star_moved[of "ends f r" st' False st] by simp
next
  case (Opt r)
  then show ?case by auto
next
  case (Grp r)
  then show ?case by fastforce
next
  case (Ahead r)
  then show ?case by (auto split: list.splits)
next
  case Bol
  then show ?case by (auto split: list.splits if_splits)
next
  case Eol
  then show ?case by (auto split: list.splits if_splits)
next
  case Wordb
  then show ?case by (auto split: if_splits)
qed

lemma match_here_moved:
  "match_here f r b a = Some st \<Longrightarrow> \<exists>u. a = u @ ahead st \<and> behind st = rev u @ b"
  using ends_moved[of st f r "\<lparr>behind = b, ahead = a, cap = None\<rparr>"]
  by (auto simp: match_here_def split: list.splits)

subsection \<open>Scanning\<close>

lemma match_here_None_iff:
  "match_here f r b a = None \<longleftrightarrow> ends f r \<lparr>behind = b, ahead = a, cap = None\<rparr> = []"
  by (simp add: match_here_def split: list.splits)

lemma replace_scan_no_match:
  "(\<And>u v. a = u @ v \<Longrightarrow> match_here f r (rev u @ b) v = None) \<Longrightarrow> replace_scan f r rep b a = a"
proof (induction a arbitrary: b)
  case Nil
  have "match_here f r b [] = None" using Nil[of "[]" "[]"] by simp
  then show ?case by (subst replace_scan.simps) simp
next
  case (Cons c a)
  have m: "match_here f r b (c # a) = None" using Cons.prems[of "[]" "c # a"] by simp
  have "replace_scan f r rep (c # b) a = a"
  proof (rule Cons.IH)
    fix u v assume "a = u @ v"
    then show "match_here f r (rev u @ c # b) v = None" using Cons.prems[of "c # u" v] by simp
  qed
  with m show ?case by (subst replace_scan.simps) simp
qed

lemma replace_scan_NCls:
  "replace_scan f (NCls items) [] b a = filter (cls_match f items) a"
proof (induction a arbitrary: b)
  case Nil
  show ?case by (subst replace_scan.simps) (simp add: match_here_def)
next
  case (Cons c a)
  show ?case
    by (subst replace_scan.simps) (simp add: match_here_def expand_def consume_def Cons.IH)
qed

lemma replace_scan_Cls:
  "replace_scan f (Cls items) [] b a = filter (\<lambda>c. \<not> cls_match f items c) a"
proof (induction a arbitrary: b)
  case Nil
  show ?case by (subst replace_scan.simps) (simp add: match_here_def)
next
  case (Cons c a)
  show ?case
    by (subst replace_scan.simps) (simp add: match_here_def expand_def consume_def Cons.IH)
qed

lemma star_cls_eol:
  assumes "\<not> multiline f"
  shows "concat (map (ends f Eol) (star True (ends f (Cls items)) st)) =
         (if list_all (cls_match f items) (ahead st) then [consume (length (ahead st)) st] else [])"
proof -
  define m where "m = ends f (Cls items)"
  define e where "e = ends f Eol"
  have m: "\<And>s. m s = (case ahead s of [] \<Rightarrow> [] | c # _ \<Rightarrow> if cls_match f items c then [consume 1 s] else [])"
    by (simp add: m_def)
  have e: "\<And>s. e s = (if ahead s = [] then [s] else [])"
    using assms by (simp add: e_def split: list.splits)
  have "concat (map e (star True m st)) =
         (if list_all (cls_match f items) (ahead st) then [consume (length (ahead st)) st] else [])"
  proof (induction "ahead st" arbitrary: st)
    case Nil
    then have a: "ahead st = []" by simp
    have "star True m st = [st]"
      by (subst star.simps) (simp add: a m)
    then have "concat (map e (star True m st)) = e st" by simp
    moreover have "e st = [st]" by (simp add: e a)
    ultimately show ?case by (simp add: a consume_0)
  next
    case (Cons c a')
    then have a: "ahead st = c # a'" by simp
    show ?case
    proof (cases "cls_match f items c")
      case False
      have "star True m st = [st]"
        by (subst star.simps) (simp add: a False m)
      then have "concat (map e (star True m st)) = e st" by simp
      moreover have "e st = []" by (simp add: e a)
      ultimately show ?thesis by (simp add: a False)
    next
      case True
      have s: "star True m st = star True m (consume 1 st) @ [st]"
        by (subst star.simps) (simp add: a True ahead_consume m)
      have ih: "concat (map e (star True m (consume 1 st))) =
           (if list_all (cls_match f items) a' then [consume (length a') (consume 1 st)] else [])"
        using Cons.hyps(1)[of "consume 1 st"] by (simp add: ahead_consume a)
      have "concat (map e (star True m st)) = concat (map e (star True m (consume 1 st))) @ e st"
        by (simp add: s)
      moreover have "e st = []" by (simp add: e a)
      ultimately show ?thesis using ih by (simp add: a True consume_consume)
    qed
  qed
  then show ?thesis by (simp only: m_def e_def)
qed

lemma test_scan_iff:
  "test_scan f r b a \<longleftrightarrow> (\<exists>u v. a = u @ v \<and> match_here f r (rev u @ b) v \<noteq> None)"
proof (induction a arbitrary: b)
  case Nil
  show ?case by simp
next
  case (Cons c a)
  show ?case
    apply (simp add: Cons.IH)
    apply (rule iffI)
     apply (erule disjE)
      apply (rule exI[of _ "[]"], simp)
     apply (elim exE conjE)
    subgoal for u v by (rule exI[of _ "c # u"]) simp
    apply (elim exE conjE)
    subgoal for u v by (cases u) auto
    done
qed

subsection \<open>The proper-ending test\<close>

lemma ends_star_cls_eol:
  assumes "\<not> multiline f"
  shows "ends f (Seq (Star (Cls items)) Eol) st =
         (if list_all (cls_match f items) (ahead st) then [consume (length (ahead st)) st] else [])"
  unfolding ends.simps(5) ends.simps(7) by (rule star_cls_eol[OF assms])








subsection \<open>The API client\<close>

lemma issue_strings_distinct:
  "IncompleteThink \<noteq> NonIndonesian" "IncompleteThink \<noteq> AppearsTruncated"
  "NonIndonesian \<noteq> AppearsTruncated" "NonIndonesian \<noteq> IncompleteThink"
  "AppearsTruncated \<noteq> IncompleteThink" "AppearsTruncated \<noteq> NonIndonesian"
  by (simp_all add: IncompleteThink_def NonIndonesian_def AppearsTruncated_def str_def)

lemma clarification_not_empty: "clarification \<noteq> []" "clarification \<noteq> str ''Asistenqu:''"
  by (simp_all add: clarification_def str_def)

lemma issues_validateResponse:
  "issues (validateResponse r) =
     (if openThinkTags r > closeThinkTags r then [IncompleteThink] else []) @
     (if test no_flags re_cjk r then [NonIndonesian] else []) @
     (if length r > 50 \<and> \<not> hasProperEnding r \<and> openThinkTags r \<noteq> closeThinkTags r
      then [AppearsTruncated] else [])"
  by (simp add: validateResponse_def Let_def)

lemma isComplete_validateResponse:
  "isComplete (validateResponse r) = (issues (validateResponse r) = [])"
  by (simp add: validateResponse_def Let_def)

lemma needs_retry_validateResponse:
  "needs_retry (validateResponse r) = serious (validateResponse r)"
  by (auto simp: needs_retry_def serious_def isComplete_validateResponse)



text \<open>
  Claim C9. \<open>validateResponse\<close> is a total function of the response text: none of its
  steps can throw on a string, so the model has no error result. Its \<open>cleaned\<close> field is
  never empty: it is the kept text, or the clarification phrase when the kept text is empty
  or the bare prefix \<open>Asistenqu:\<close>.
\<close>

theorem validateResponse_cleaned_nonempty:
  "cleaned (validateResponse r) \<noteq> [] \<and>
   cleaned (validateResponse r) =
     (let kept = (if openThinkTags r > closeThinkTags r then cut_unclosed r else trim r)
      in if kept = [] \<or> kept = str ''Asistenqu:'' then clarification else kept)"
  using clarification_not_empty by (simp add: validateResponse_def Let_def)

theorem validateResponse_cleaned_nonempty_witness:
  "cleaned (validateResponse (str ''  <think>'')) \<noteq> [] \<and>
   cleaned (validateResponse (str ''  <think>'')) = clarification"
proof -
  have "cut_unclosed (str ''  <think>'') = [] \<and>
        openThinkTags (str ''  <think>'') > closeThinkTags (str ''  <think>'')"
    by code_simp
  with validateResponse_cleaned_nonempty[of "str ''  <think>''"]
  have "cleaned (validateResponse (str ''  <think>'')) = clarification"
    by (simp add: Let_def)
  moreover have "cleaned (validateResponse (str ''  <think>'')) \<noteq> []"
    using validateResponse_cleaned_nonempty[of "str ''  <think>''"] by blast
  ultimately show ?thesis by blast
qed

lemma validateConfig_ok: "numeric cfg \<Longrightarrow> config_ok (validateConfig cfg)"
  by (cases "maxTokens cfg"; cases "temperature cfg")
     (auto simp: numeric_def config_ok_def validateConfig_def Math_max_def Math_min_def)

lemma config_sendSimpleMessage: "fst (snd (sendSimpleMessage this msg h w)) = this"
  by (simp add: sendSimpleMessage_def split: prod.splits fetch_outcome.splits)

lemma config_sendMessage: "config (fst (snd (sendMessage this seed msg h w))) = config this"
  by (simp add: sendMessage_def Let_def config_sendSimpleMessage
      split: prod.splits fetch_outcome.splits option.splits)

lemma config_read_lines: "config (snd (read_lines ls acc)) = config (snd acc)"
  by (induction ls acc rule: read_lines.induct) (auto split: option.splits)

lemma config_read_chunks: "config (snd (read_chunks cs acc)) = config (snd acc)"
  by (induction cs acc rule: read_chunks.induct) (auto simp: config_read_lines)

lemma config_sendMessageStream: "config (snd (sendMessageStream this out)) = config this"
proof (cases out)
  case (StreamOk chunks)
  obtain full this' where r: "read_chunks chunks ([], this) = (full, this')"
    by (cases "read_chunks chunks ([], this)")
  have "config this' = config this"
    using config_read_chunks[of chunks "([], this)"] by (simp add: r)
  then show ?thesis by (simp add: sendMessageStream_def StreamOk r)
qed (simp_all add: sendMessageStream_def)

text \<open>
  Claim C10, amended. For every client whose constructor and \<open>updateConfig\<close> calls were
  given configurations with \<open>maxTokens\<close> and \<open>temperature\<close> other than NaN, the stored
  configuration satisfies \<open>maxTokens \<ge> 1500\<close> and \<open>0.1 \<le> temperature \<le> 1.2\<close> in every
  state of the client's lifetime.
\<close>

theorem config_clamped_when_numeric:
  "lifetime numeric this \<Longrightarrow> config_ok (config this)"
proof (induction rule: lifetime.induct)
  case (l_new cfg)
  then show ?case by (simp add: new_APIClient_def validateConfig_ok)
next
  case (l_updateConfig this cfg)
  then show ?case by (simp add: updateConfig_def validateConfig_ok)
next
  case (l_clearContext this)
  then show ?case by (simp add: clearContext_def)
next
  case (l_sendMessage this seed msg h w)
  then show ?case by (simp add: config_sendMessage)
next
  case (l_sendMessageStream this out)
  then show ?case by (simp add: config_sendMessageStream)
qed

theorem config_clamped_when_numeric_witness:
  "lifetime numeric (clearContext (new_APIClient DEFAULT_AI_CONFIG)) \<and>
   config_ok (config (clearContext (new_APIClient DEFAULT_AI_CONFIG))) \<and>
   maxTokens (config (clearContext (new_APIClient DEFAULT_AI_CONFIG))) = Fin 1500"
proof -
  have "numeric DEFAULT_AI_CONFIG" by (simp add: numeric_def DEFAULT_AI_CONFIG_def)
  then have l: "lifetime numeric (clearContext (new_APIClient DEFAULT_AI_CONFIG))"
    by (intro lifetime.intros)
  have "maxTokens (config (clearContext (new_APIClient DEFAULT_AI_CONFIG))) = Fin 1500"
    by (simp add: clearContext_def new_APIClient_def validateConfig_def DEFAULT_AI_CONFIG_def Math_max_def)
  with l config_clamped_when_numeric[OF l] show ?thesis by simp
qed

text \<open>
  Claim C10 as stated fails: \<open>Math.max(NaN, 1500)\<close> is NaN, so a configuration whose
  \<open>maxTokens\<close> is NaN is stored with \<open>maxTokens\<close> NaN, which is not at least 1500.
\<close>

theorem config_nan_counterexample:
  "\<not> config_ok (config (new_APIClient (DEFAULT_AI_CONFIG\<lparr>maxTokens := NaN\<rparr>)))"
  by (simp add: config_ok_def new_APIClient_def validateConfig_def DEFAULT_AI_CONFIG_def Math_max_def)

lemma fetch_sent: "sent (snd (fetch w req)) = sent w @ [req]"
  by (simp add: fetch_def split: list.splits)

lemma fetch_pending: "pending (snd (fetch w req)) = tl (pending w)"
  by (simp add: fetch_def split: list.splits)

lemma fetch_outcome: "fst (fetch w req) = (case pending w of [] \<Rightarrow> Rejected (str ''Failed to fetch'') | out # _ \<Rightarrow> out)"
  by (simp add: fetch_def split: list.splits)

lemma sendSimpleMessage_sent:
  "sent (snd (snd (sendSimpleMessage this msg h w))) = sent w @ [simple_request this msg]"
  using fetch_sent[of w "simple_request this msg"]
  by (cases "fetch w (simple_request this msg)")
     (auto simp: sendSimpleMessage_def split: fetch_outcome.splits)

lemma sendSimpleMessage_result:
  "fst (sendSimpleMessage this msg h w) =
     (case fst (fetch w (simple_request this msg)) of
        HttpOk d \<Rightarrow> \<lparr>message = clean_simple (response d), success = True, error = None\<rparr>
      | HttpFailure status body \<Rightarrow> \<lparr>message = greeting, success = False, error = Some (HttpStatus status None)\<rparr>
      | Rejected m \<Rightarrow> \<lparr>message = greeting, success = False, error = Some (ErrorMessage m)\<rparr>)"
  by (cases "fetch w (simple_request this msg)")
     (auto simp: sendSimpleMessage_def split: fetch_outcome.splits)

lemma simple_request_config: "config this' = config this \<Longrightarrow> simple_request this' msg = simple_request this msg"
  by (simp add: simple_request_def)

lemma sendMessage_ok:
  assumes "pending w = HttpOk data # rest"
  shows "sendMessage this seed msg h w =
     (let this' = (case resp_context data of None \<Rightarrow> this | Some c \<Rightarrow> this\<lparr>stored_context := c\<rparr>);
          w' = w\<lparr>pending := rest, sent := sent w @ [primary_request this seed msg h]\<rparr>
      in if serious (validateResponse (response data)) then sendSimpleMessage this' msg h w'
         else (\<lparr>message = cleaned (validateResponse (response data)), success = True, error = None\<rparr>, this', w'))"
  by (simp add: sendMessage_def fetch_def assms Let_def needs_retry_validateResponse)

lemma sendMessage_not_ok:
  assumes "\<And>data rest. pending w \<noteq> HttpOk data # rest"
  shows "fst (snd (sendMessage this seed msg h w)) = this"
    and "sent (snd (snd (sendMessage this seed msg h w))) = sent w @ [primary_request this seed msg h]"
    and "message (fst (sendMessage this seed msg h w)) = [] \<and> \<not> success (fst (sendMessage this seed msg h w))"
  using assms
  by (auto simp: sendMessage_def fetch_def split: list.splits fetch_outcome.splits)

lemma sendMessage_analysis:
  "sent (snd (snd (sendMessage this seed msg h w))) =
     sent w @ primary_request this seed msg h # (if retried w then [simple_request this msg] else [])
   \<and> (retried w \<longrightarrow>
        (case retry_outcome w of
           HttpOk d \<Rightarrow> fst (sendMessage this seed msg h w) =
                         \<lparr>message = clean_simple (response d), success = True, error = None\<rparr>
         | _ \<Rightarrow> message (fst (sendMessage this seed msg h w)) = greeting \<and>
                \<not> success (fst (sendMessage this seed msg h w))))
   \<and> (\<forall>data rest. pending w = HttpOk data # rest \<longrightarrow>
         (retried w \<longleftrightarrow> (IncompleteThink \<in> set (issues (validateResponse (response data))) \<or>
                        NonIndonesian \<in> set (issues (validateResponse (response data))))) \<and>
         (issues (validateResponse (response data)) = [AppearsTruncated] \<longrightarrow> \<not> retried w) \<and>
         (\<not> retried w \<longrightarrow> fst (sendMessage this seed msg h w) =
             \<lparr>message = cleaned (validateResponse (response data)), success = True, error = None\<rparr>))"
proof (cases "\<exists>data rest. pending w = HttpOk data # rest")
  case False
  then have n: "\<And>data rest. pending w \<noteq> HttpOk data # rest" by blast
  have "\<not> retried w" using n by (auto simp: retried_def split: list.splits fetch_outcome.splits)
  then show ?thesis using sendMessage_not_ok(2)[OF n] n by simp
next
  case True
  then obtain data rest where p: "pending w = HttpOk data # rest" by blast
  have r: "retried w = serious (validateResponse (response data))"
    by (simp add: retried_def p)
  define this' where "this' = (case resp_context data of None \<Rightarrow> this | Some c \<Rightarrow> this\<lparr>stored_context := c\<rparr>)"
  define w' where "w' = w\<lparr>pending := rest, sent := sent w @ [primary_request this seed msg h]\<rparr>"
  have c: "config this' = config this" by (simp add: this'_def split: option.splits)
  have s: "sendMessage this seed msg h w =
      (if serious (validateResponse (response data)) then sendSimpleMessage this' msg h w'
       else (\<lparr>message = cleaned (validateResponse (response data)), success = True, error = None\<rparr>, this', w'))"
    using sendMessage_ok[OF p] by (simp add: Let_def this'_def w'_def)
  have o: "fst (fetch w' (simple_request this' msg)) = retry_outcome w"
    by (simp add: fetch_outcome retry_outcome_def w'_def p)
  have t: "issues (validateResponse (response data)) = [AppearsTruncated] \<longrightarrow> \<not> retried w"
    using issue_strings_distinct by (auto simp: r serious_def)
  show ?thesis
  proof (cases "retried w")
    case True
    then have s': "sendMessage this seed msg h w = sendSimpleMessage this' msg h w'"
      using s r by simp
    have 1: "sent (snd (snd (sendMessage this seed msg h w))) =
       sent w @ [primary_request this seed msg h, simple_request this msg]"
      by (simp add: s' sendSimpleMessage_sent simple_request_config[OF c] w'_def)
    have 2: "case retry_outcome w of
           HttpOk d \<Rightarrow> fst (sendMessage this seed msg h w) =
                         \<lparr>message = clean_simple (response d), success = True, error = None\<rparr>
         | _ \<Rightarrow> message (fst (sendMessage this seed msg h w)) = greeting \<and>
                \<not> success (fst (sendMessage this seed msg h w))"
      by (simp add: s' sendSimpleMessage_result o split: fetch_outcome.splits)
    show ?thesis using True 1 2 p r issue_strings_distinct by (auto simp: serious_def)
  next
    case False
    then have s': "sendMessage this seed msg h w =
       (\<lparr>message = cleaned (validateResponse (response data)), success = True, error = None\<rparr>, this', w')"
      using s r by simp
    show ?thesis using False p r issue_strings_distinct by (auto simp: s' w'_def serious_def)
  qed
qed


text \<open>
  Claim C3. \<open>sendMessage\<close> issues the primary request and then exactly one retry request
  (that of \<open>sendSimpleMessage\<close>) when and only when the primary call got a response whose
  validation reports "Incomplete <think> tags detected" or "Contains non-Indonesian
  characters"; a response whose only issue is truncation is not retried and its cleaned
  text is returned. The retry's result is returned as it is, with no further request: its
  cleaned text when the retry call succeeds, and the greeting
  "Halo! Ada yang bisa saya bantu?" with \<open>success\<close> false when the retry call fails.
\<close>

theorem sendMessage_retry_policy:
  "sent (snd (snd (sendMessage this seed msg h w))) =
     sent w @ primary_request this seed msg h # (if retried w then [simple_request this msg] else [])
   \<and> (retried w \<longrightarrow>
        (case retry_outcome w of
           HttpOk d \<Rightarrow> fst (sendMessage this seed msg h w) =
                         \<lparr>message = clean_simple (response d), success = True, error = None\<rparr>
         | _ \<Rightarrow> message (fst (sendMessage this seed msg h w)) = greeting \<and>
                \<not> success (fst (sendMessage this seed msg h w))))
   \<and> (\<forall>data rest. pending w = HttpOk data # rest \<longrightarrow>
         (retried w \<longleftrightarrow> (IncompleteThink \<in> set (issues (validateResponse (response data))) \<or>
                        NonIndonesian \<in> set (issues (validateResponse (response data))))) \<and>
         (issues (validateResponse (response data)) = [AppearsTruncated] \<longrightarrow> \<not> retried w) \<and>
         (\<not> retried w \<longrightarrow> fst (sendMessage this seed msg h w) =
             \<lparr>message = cleaned (validateResponse (response data)), success = True, error = None\<rparr>))"
  by (rule sendMessage_analysis)

lemma sample_retried: "retried sample_world" by code_simp

lemma sample_retry_outcome:
  "retry_outcome sample_world = HttpOk \<lparr>response = str ''<think>Halo'', is_done = True, resp_context = Some [4, 5]\<rparr>"
  by code_simp

lemma sample_clean: "clean_simple (str ''<think>Halo'') = str ''<think>Halo''" by code_simp

theorem sendMessage_retry_policy_witness:
  "retried sample_world \<and>
   sent (snd (snd (sendMessage sample_client 7 (str ''hai'') [] sample_world))) =
     [primary_request sample_client 7 (str ''hai'') [], simple_request sample_client (str ''hai'')] \<and>
   fst (sendMessage sample_client 7 (str ''hai'') [] sample_world) =
     \<lparr>message = str ''<think>Halo'', success = True, error = None\<rparr>"
proof -
  have s: "sent sample_world = []" by (simp add: sample_world_def)
  from sendMessage_retry_policy[of sample_client 7 "str ''hai''" "[]" sample_world]
  show ?thesis by (simp add: sample_retried sample_retry_outcome sample_clean s)
qed

lemma stored_context_sendMessage:
  "stored_context (fst (snd (sendMessage this seed msg h w))) =
     (case pending w of
        HttpOk data # _ \<Rightarrow> (case resp_context data of Some c \<Rightarrow> c | None \<Rightarrow> stored_context this)
      | _ \<Rightarrow> stored_context this)"
proof (cases "\<exists>data rest. pending w = HttpOk data # rest")
  case False
  then have n: "\<And>data rest. pending w \<noteq> HttpOk data # rest" by blast
  show ?thesis using sendMessage_not_ok(1)[OF n] n
    by (auto split: list.splits fetch_outcome.splits)
next
  case True
  then obtain data rest where p: "pending w = HttpOk data # rest" by blast
  show ?thesis
    by (simp add: sendMessage_ok[OF p] Let_def config_sendSimpleMessage p split: option.splits)
qed

text \<open>
  Claim C8. The request of \<open>sendSimpleMessage\<close> carries no context and the method leaves
  the client, hence the stored continuation token, unchanged. In \<open>sendMessage\<close> the only
  request after the primary one is that retry request, and the token stored afterwards is
  the one of the primary response when it has one, the old token otherwise: the retry's
  response has no part in it.
\<close>

theorem retry_leaves_context:
  "req_context (simple_request this msg) = None
   \<and> sent (snd (snd (sendSimpleMessage this msg h w))) = sent w @ [simple_request this msg]
   \<and> fst (snd (sendSimpleMessage this msg h w)) = this
   \<and> sent (snd (snd (sendMessage this seed msg h w))) =
       sent w @ primary_request this seed msg h # (if retried w then [simple_request this msg] else [])
   \<and> stored_context (fst (snd (sendMessage this seed msg h w))) =
       (case pending w of
          HttpOk data # _ \<Rightarrow> (case resp_context data of Some c \<Rightarrow> c | None \<Rightarrow> stored_context this)
        | _ \<Rightarrow> stored_context this)"
  using sendMessage_analysis[of this seed msg h w]
  by (simp add: sendSimpleMessage_sent config_sendSimpleMessage stored_context_sendMessage)
     (simp add: simple_request_def)

theorem retry_leaves_context_witness:
  "req_context (simple_request sample_client (str ''hai'')) = None \<and>
   retried sample_world \<and>
   map req_context
     (sent (snd (snd (sendMessage (sample_client\<lparr>stored_context := [9]\<rparr>) 7 (str ''hai'') [] sample_world)))) =
     [Some [9], None] \<and>
   stored_context
     (fst (snd (sendMessage (sample_client\<lparr>stored_context := [9]\<rparr>) 7 (str ''hai'') [] sample_world))) =
     [1, 2, 3]"
proof -
  have s: "sent sample_world = []" "pending sample_world =
      [HttpOk \<lparr>response = sample_raw, is_done = True, resp_context = Some [1, 2, 3]\<rparr>,
       HttpOk \<lparr>response = str ''<think>Halo'', is_done = True, resp_context = Some [4, 5]\<rparr>]"
    by (simp_all add: sample_world_def)
  from retry_leaves_context[of "sample_client\<lparr>stored_context := [9]\<rparr>" "str ''hai''" "[]" sample_world 7]
  show ?thesis by (simp add: sample_retried s primary_request_def simple_request_def)
qed

subsection \<open>The length limit\<close>

lemma length_trim: "length (trim t) \<le> length t"
proof -
  have "length (dropWhile is_ws (rev (dropWhile is_ws t))) \<le> length (rev (dropWhile is_ws t))"
    by (rule length_dropWhile_le)
  also have "\<dots> \<le> length t" by (simp add: length_dropWhile_le)
  finally show ?thesis by (simp add: trim_def)
qed

lemma sentence_loop_bound:
  "length result \<le> Suc n \<Longrightarrow> length (sentence_loop n ss result) \<le> Suc n"
  by (induction ss arbitrary: result) (auto simp: Let_def str_def)

lemma word_loop_bound:
  "length result \<le> n \<Longrightarrow> length (word_loop n ws result) \<le> n"
  by (induction ws arbitrary: result) (auto simp: str_def)

lemma limitLength_bound: "length (limitLength t n) \<le> Suc n"
proof -
  have s: "length (sentence_loop n ss []) \<le> Suc n" for ss
    by (rule sentence_loop_bound) simp
  have w: "length (word_loop n ws []) \<le> n" for ws
    by (rule word_loop_bound) simp
  show ?thesis
    using s w by (auto simp: limitLength_def Let_def str_def le_SucI)
qed

text \<open>
  Claim C5. For every text and every configured maximum length \<open>n \<ge> 1\<close>, the result of
  \<open>formatForVoice\<close> is at most \<open>n + 1\<close> characters long: \<open>limitLength\<close> returns at
  most \<open>n + 1\<close> characters whichever of its stages produces the result (sentences, words
  with the added full stop, or the cut text), and the final \<open>trim\<close> does not lengthen it.
\<close>

theorem formatForVoice_length_bound:
  "1 \<le> n \<Longrightarrow>
     length (limitLength t n) \<le> n + 1 \<and>
     length (formatForVoice (cfg\<lparr>maxLength := Some n\<rparr>) x) \<le> n + 1"
proof -
  assume n: "1 \<le> n"
  have "length (formatForVoice (cfg\<lparr>maxLength := Some n\<rparr>) x) \<le> Suc n"
    using n by (auto simp: formatForVoice_def Let_def intro: order_trans[OF length_trim limitLength_bound])
  then show ?thesis using limitLength_bound[of t n] by simp
qed

lemma sample_limit:
  "formatForVoice (voiceFormatter\<lparr>maxLength := Some 5\<rparr>) (str ''ab cd ef'') = str ''ab cd.''"
  by code_simp

theorem formatForVoice_length_bound_witness:
  "(1::nat) \<le> 5 \<and> length (limitLength (str ''ab cd ef'') 5) \<le> 5 + 1 \<and>
   length (formatForVoice (voiceFormatter\<lparr>maxLength := Some 5\<rparr>) (str ''ab cd ef'')) = 5 + 1"
proof -
  have one: "(1::nat) \<le> 5" by simp
  have "length (str ''ab cd.'') = 5 + 1" by (simp add: str_def)
  with formatForVoice_length_bound[OF one, of "str ''ab cd ef''" voiceFormatter "str ''ab cd ef''"]
  show ?thesis unfolding sample_limit by simp
qed

subsection \<open>Markers\<close>

lemma ci_prefix_append: "ci_prefix s v \<Longrightarrow> ci_prefix s (v @ w)"
  by (simp add: ci_prefix_def)

lemma ci_prefix_Nil: "s \<noteq> [] \<Longrightarrow> \<not> ci_prefix s []"
  by (simp add: ci_prefix_def)

lemma count_ci_zero: "s \<noteq> [] \<Longrightarrow> count_ci s (u @ v) = 0 \<Longrightarrow> \<not> ci_prefix s v"
proof (induction u)
  case Nil
  then show ?case by (cases v) (auto simp: ci_prefix_Nil split: if_splits)
next
  case (Cons c u)
  then show ?case by (auto split: if_splits)
qed

lemma count_ci_ge: "v \<noteq> [] \<Longrightarrow> ci_prefix s v \<Longrightarrow> count_ci s (u @ v) \<ge> 1"
proof (induction u)
  case Nil
  then show ?case by (cases v) auto
next
  case (Cons c u)
  then show ?case by auto
qed

lemma count_ci_unique:
  assumes "count_ci s t = 1" "t = u @ v" "ci_prefix s v" "v \<noteq> []" "t = u' @ v'" "ci_prefix s v'" "v' \<noteq> []"
  shows "u = u'"
  using assms
proof (induction t arbitrary: u u')
  case Nil
  then show ?case by simp
next
  case (Cons c t)
  show ?case
  proof (cases u)
    case un: Nil
    show ?thesis
    proof (cases u')
      case Nil
      with un show ?thesis by simp
    next
      case (Cons d u'')
      then have "t = u'' @ v'" using Cons.prems(5) by simp
      then have "count_ci s t \<ge> 1" using count_ci_ge[OF Cons.prems(7,6)] by simp
      moreover have "ci_prefix s (c # t)" using Cons.prems(2,3) un by simp
      ultimately show ?thesis using Cons.prems(1) by simp
    qed
  next
    case uc: (Cons d u0)
    then have t: "t = u0 @ v" using Cons.prems(2) by simp
    show ?thesis
    proof (cases u')
      case Nil
      have "count_ci s t \<ge> 1" using count_ci_ge[OF Cons.prems(4,3)] t by simp
      moreover have "ci_prefix s (c # t)" using Cons.prems(5,6) Nil by simp
      ultimately show ?thesis using Cons.prems(1) by simp
    next
      case (Cons d' u'')
      then have t': "t = u'' @ v'" using Cons.prems(5) by simp
      have "count_ci s t = 1" using Cons.prems(1) count_ci_ge[OF Cons.prems(4,3), of u0] t
        by (auto split: if_splits)
      from Cons.IH[OF this t Cons.prems(3,4) t' Cons.prems(6,7)] have "u0 = u''" .
      moreover have "d = d'" using Cons.prems(2,5) uc Cons by simp
      ultimately show ?thesis using uc Cons by simp
    qed
  qed
qed

lemma before_ci_split:
  "count_ci s x \<ge> 1 \<Longrightarrow> \<exists>v. x = before_ci s x @ v \<and> ci_prefix s v \<and> v \<noteq> []"
  by (induction x) (auto split: if_splits)

lemma before_ci_prefix: "\<exists>v. x = before_ci s x @ v"
  by (induction x) auto

lemma before_ci_no_start: "s \<noteq> [] \<Longrightarrow> before_ci s x = u @ v \<Longrightarrow> \<not> ci_prefix s v"
proof (induction x arbitrary: u)
  case Nil
  then show ?case by (simp add: ci_prefix_Nil)
next
  case (Cons c x)
  show ?case
  proof (cases "ci_prefix s (c # x)")
    case True
    with Cons.prems show ?thesis by (simp add: ci_prefix_Nil)
  next
    case False
    then have b: "c # before_ci s x = u @ v" using Cons.prems by simp
    show ?thesis
    proof (cases u)
      case Nil
      obtain w where w: "x = before_ci s x @ w" using before_ci_prefix by blast
      have "v = c # before_ci s x" using b Nil by simp
      then have "c # x = v @ w" using w by simp
      then show ?thesis using False ci_prefix_append[of s v w] by auto
    next
      case (Cons d u')
      then have "before_ci s x = u' @ v" using b by simp
      from Cons.IH[OF Cons.prems(1) this] show ?thesis .
    qed
  qed
qed

lemma before_ci_idem: "s \<noteq> [] \<Longrightarrow> before_ci s (before_ci s x) = before_ci s x"
proof -
  assume s: "s \<noteq> []"
  have "(\<And>u v. t = u @ v \<Longrightarrow> \<not> ci_prefix s v) \<Longrightarrow> before_ci s t = t" for t
  proof (induction t)
    case Nil
    show ?case by simp
  next
    case (Cons c t)
    have "\<not> ci_prefix s (c # t)" using Cons.prems[of "[]" "c # t"] by simp
    moreover have "before_ci s t = t"
      by (rule Cons.IH) (use Cons.prems[of "c # u" for u] in auto)
    ultimately show ?case by simp
  qed
  then show ?thesis using before_ci_no_start[OF s] by blast
qed

subsection \<open>The tag patterns of removeThinkTags\<close>

lemma cls_match_any: "cls_match f [Space, NonSpace] c"
  by (simp add: cls_match_def in_class_def)

lemma ends_Str_ci:
  "ends flags_i (Str s) st = (if ci_prefix s (ahead st) then [consume (length s) st] else [])"
  by (simp add: ci_prefix_def)

lemma seq_lit_occurs:
  assumes "st' \<in> set (ends flags_i (Seq r (Str s)) st)"
  shows "\<exists>u v. ahead st = u @ v \<and> ci_prefix s v \<and> ahead st' = drop (length s) v"
proof -
  from assms obtain s1 where s1: "s1 \<in> set (ends flags_i r st)" and e: "st' \<in> set (ends flags_i (Str s) s1)"
    by auto
  from ends_moved[OF s1] obtain u where u: "ahead st = u @ ahead s1" by blast
  from e have "ci_prefix s (ahead s1)" "st' = consume (length s) s1"
    unfolding ends_Str_ci by (auto split: if_splits)
  with u show ?thesis by (auto simp: ahead_consume)
qed

lemma seq_occurs_lift:
  assumes r2: "\<And>s1 st'. st' \<in> set (ends f r2 s1) \<Longrightarrow> \<exists>u v. ahead s1 = u @ v \<and> Q v st'"
    and m: "st' \<in> set (ends f (Seq r1 r2) st)"
  shows "\<exists>u v. ahead st = u @ v \<and> Q v st'"
proof -
  from m obtain s1 where s1: "s1 \<in> set (ends f r1 st)" and e: "st' \<in> set (ends f r2 s1)"
    by auto
  from ends_moved[OF s1] obtain u0 where u0: "ahead st = u0 @ ahead s1" by blast
  from r2[OF e] obtain u v where "ahead s1 = u @ v" "Q v st'" by blast
  with u0 show ?thesis by (intro exI[of _ "u0 @ u"] exI[of _ v]) simp
qed

lemma pattern1_occurs:
  assumes "st' \<in> set (ends flags_i think_pattern1 st)"
  shows "\<exists>u v. ahead st = u @ v \<and> ci_prefix (str ''</think>'') v \<and> ahead st' = drop 8 v"
proof -
  have "\<exists>u v. ahead st = u @ v \<and> (ci_prefix (str ''</think>'') v \<and> ahead st' = drop (length (str ''</think>'')) v)"
    using assms unfolding think_pattern1_def
    by (rule seq_occurs_lift[rotated]) (rule seq_lit_occurs)
  moreover have "length (str ''</think>'') = 8" by (simp add: str_def)
  ultimately show ?thesis by (simp only:)
qed

lemma pattern2_occurs:
  assumes "st' \<in> set (ends flags_i think_pattern2 st)"
  shows "\<exists>u v. ahead st = u @ v \<and> ci_prefix (str ''</think>'') v"
proof -
  have "\<exists>u v. ahead st = u @ v \<and> (ci_prefix (str ''</think>'') v \<and> ahead st' = drop (length (str ''</think>'')) v)"
    using assms unfolding think_pattern2_def
    apply (rule seq_occurs_lift[rotated])
    apply (erule seq_occurs_lift[rotated])
    apply (erule seq_occurs_lift[rotated])
    apply (erule seq_lit_occurs)
    done
  then show ?thesis by blast
qed

lemma pattern1_none:
  assumes "\<And>u v. t = u @ v \<Longrightarrow> \<not> ci_prefix (str ''</think>'') v"
  shows "replace_all flags_i think_pattern1 [] t = t"
  unfolding replace_all_def
proof (rule replace_scan_no_match)
  fix u v assume t: "t = u @ v"
  show "match_here flags_i think_pattern1 (rev u @ []) v = None"
  proof (rule ccontr)
    assume "match_here flags_i think_pattern1 (rev u @ []) v \<noteq> None"
    then obtain st' where "st' \<in> set (ends flags_i think_pattern1 \<lparr>behind = rev u @ [], ahead = v, cap = None\<rparr>)"
      unfolding match_here_None_iff
      by (cases "ends flags_i think_pattern1 \<lparr>behind = rev u @ [], ahead = v, cap = None\<rparr>") auto
    from pattern1_occurs[OF this] obtain u2 v2 where "v = u2 @ v2" "ci_prefix (str ''</think>'') v2"
      by auto
    then show False using assms[of "u @ u2" v2] t by simp
  qed
qed

lemma pattern2_none:
  assumes "\<And>u v. t = u @ v \<Longrightarrow> \<not> ci_prefix (str ''</think>'') v"
  shows "replace_all flags_i think_pattern2 [] t = t"
  unfolding replace_all_def
proof (rule replace_scan_no_match)
  fix u v assume t: "t = u @ v"
  show "match_here flags_i think_pattern2 (rev u @ []) v = None"
  proof (rule ccontr)
    assume "match_here flags_i think_pattern2 (rev u @ []) v \<noteq> None"
    then obtain st' where "st' \<in> set (ends flags_i think_pattern2 \<lparr>behind = rev u @ [], ahead = v, cap = None\<rparr>)"
      unfolding match_here_None_iff
      by (cases "ends flags_i think_pattern2 \<lparr>behind = rev u @ [], ahead = v, cap = None\<rparr>") auto
    from pattern2_occurs[OF this] obtain u2 v2 where "v = u2 @ v2" "ci_prefix (str ''</think>'') v2"
      by auto
    then show False using assms[of "u @ u2" v2] t by simp
  qed
qed

lemma ends_pattern3:
  "ends flags_i think_pattern3 st =
     (if ci_prefix (str ''<think>'') (ahead st) then [consume (length (ahead st)) st] else [])"
proof -
  have nm: "\<not> multiline flags_i" by (simp add: flags_i_def)
  have all: "list_all (cls_match flags_i [Space, NonSpace]) a" for a
    by (simp add: list_all_iff cls_match_any)
  show ?thesis
    unfolding think_pattern3_def any_char_def ends.simps(5)[of _ "Str _"] ends_Str_ci
    by (auto simp: ends_star_cls_eol[OF nm] all ahead_consume consume_consume ci_prefix_def
        simp del: ends.simps)
qed

lemma replace_pattern3_Nil: "replace_scan flags_i think_pattern3 [] b [] = []"
proof -
  have "match_here flags_i think_pattern3 b [] = None"
    by (simp add: match_here_None_iff ends_pattern3 ci_prefix_def str_def del: ends.simps)
  then show ?thesis by (subst replace_scan.simps) simp
qed

lemma replace_pattern3:
  "replace_scan flags_i think_pattern3 [] b a = before_ci (str ''<think>'') a"
proof (induction a arbitrary: b)
  case Nil
  show ?case by (simp add: replace_pattern3_Nil)
next
  case (Cons c a)
  note nil = replace_pattern3_Nil
  show ?case
  proof (cases "ci_prefix (str ''<think>'') (c # a)")
    case True
    then have "match_here flags_i think_pattern3 b (c # a) =
        Some (consume (Suc (length a)) \<lparr>behind = b, ahead = c # a, cap = None\<rparr>)"
      by (simp add: match_here_def ends_pattern3 del: ends.simps)
    then show ?thesis using True
      by (subst replace_scan.simps) (simp add: expand_def ahead_consume nil)
  next
    case False
    then have "match_here flags_i think_pattern3 b (c # a) = None"
      by (simp add: match_here_None_iff ends_pattern3 del: ends.simps)
    then show ?thesis using False Cons.IH
      by (subst replace_scan.simps) simp
  qed
qed

lemma think_heuristics_Nil: "think_heuristics [] = []"
  by code_simp

lemma removeThinkTags_Nil: "removeThinkTags [] = []"
  by (simp add: removeThinkTags_def)

lemma removeThinkTags_no_close:
  assumes "\<And>u v. t = u @ v \<Longrightarrow> \<not> ci_prefix (str ''</think>'') v"
  shows "removeThinkTags t = think_heuristics (before_ci (str ''<think>'') t)"
  using pattern1_none[OF assms] pattern2_none[OF assms]
  by (cases "t = []")
     (simp_all add: removeThinkTags_def Let_def think_heuristics_Nil replace_all_def[of _ think_pattern3] replace_pattern3)

lemma formatForVoice_cong:
  "removeThinkTags_on cfg \<Longrightarrow> removeThinkTags x = removeThinkTags y \<Longrightarrow>
   formatForVoice cfg x = formatForVoice cfg y"
  by (simp add: formatForVoice_def)

lemma open_tag_not_empty: "str ''<think>'' \<noteq> []" "str ''</think>'' \<noteq> []"
  by (simp_all add: str_def)

text \<open>
  Claim C1. Let a text contain exactly one start marker \<open><think>\<close> and no end marker
  \<open></think>\<close> (markers are recognised in upper and lower case, as the sanitizer's
  expressions do). Then, with reasoning-span removal enabled, the three tag patterns leave
  exactly the text before the start marker, and \<open>formatForVoice\<close> returns what it returns
  for that preceding text alone: everything from the start marker to the end is removed, and
  the output (possibly empty) is made from the preceding text only.
\<close>

theorem unterminated_span_removed:
  assumes on: "removeThinkTags_on cfg"
    and one: "count_ci (str ''<think>'') x = 1"
    and none: "count_ci (str ''</think>'') x = 0"
  shows "(\<exists>m rest. x = before_ci (str ''<think>'') x @ m @ rest \<and> length m = 7 \<and>
                   ci_prefix (str ''<think>'') m)
       \<and> replace_all flags_i think_pattern3 []
            (replace_all flags_i think_pattern2 [] (replace_all flags_i think_pattern1 [] x)) =
           before_ci (str ''<think>'') x
       \<and> formatForVoice cfg x = formatForVoice cfg (before_ci (str ''<think>'') x)"
proof -
  let ?pre = "before_ci (str ''<think>'') x"
  have nc: "\<not> ci_prefix (str ''</think>'') v" if "x = u @ v" for u v
    using count_ci_zero[OF open_tag_not_empty(2), of u v] none that by simp
  obtain v where v: "x = ?pre @ v" "ci_prefix (str ''<think>'') v"
    using before_ci_split[of "str ''<think>''" x] one by auto
  have l: "length (str ''<think>'') = 7" by (simp add: str_def)
  have "x = ?pre @ take 7 v @ drop 7 v" using v(1) by simp
  moreover have "length (take 7 v) = 7 \<and> ci_prefix (str ''<think>'') (take 7 v)"
    using v(2) by (simp add: ci_prefix_def l)
  ultimately have 1: "\<exists>m rest. x = ?pre @ m @ rest \<and> length m = 7 \<and> ci_prefix (str ''<think>'') m"
    by blast
  have 2: "replace_all flags_i think_pattern3 []
            (replace_all flags_i think_pattern2 [] (replace_all flags_i think_pattern1 [] x)) = ?pre"
    using pattern1_none[of x] pattern2_none[of x] nc
    by (simp add: replace_all_def[of _ think_pattern3] replace_pattern3)
  have nc_pre: "\<not> ci_prefix (str ''</think>'') w" if "?pre = u @ w" for u w
  proof
    assume "ci_prefix (str ''</think>'') w"
    then have "ci_prefix (str ''</think>'') (w @ v)" by (rule ci_prefix_append)
    moreover have "x = u @ (w @ v)" using v(1) that by simp
    ultimately show False using nc by blast
  qed
  have "removeThinkTags x = think_heuristics ?pre"
    by (rule removeThinkTags_no_close) (rule nc)
  moreover have "removeThinkTags ?pre = think_heuristics (before_ci (str ''<think>'') ?pre)"
    by (rule removeThinkTags_no_close) (rule nc_pre)
  ultimately have "removeThinkTags x = removeThinkTags ?pre"
    by (simp add: before_ci_idem[OF open_tag_not_empty(1)])
  from formatForVoice_cong[OF on this] 1 2 show ?thesis by blast
qed

lemma sample_unterminated:
  "count_ci (str ''<think>'') (str ''Halo <think>rencana jawaban'') = 1"
  "count_ci (str ''</think>'') (str ''Halo <think>rencana jawaban'') = 0"
  "before_ci (str ''<think>'') (str ''Halo <think>rencana jawaban'') = str ''Halo ''"
  "formatForVoice voiceFormatter (str ''Halo '') = str ''Halo''"
  "removeThinkTags_on voiceFormatter"
  by code_simp+

theorem unterminated_span_removed_witness:
  "removeThinkTags_on voiceFormatter \<and>
   count_ci (str ''<think>'') (str ''Halo <think>rencana jawaban'') = 1 \<and>
   count_ci (str ''</think>'') (str ''Halo <think>rencana jawaban'') = 0 \<and>
   formatForVoice voiceFormatter (str ''Halo <think>rencana jawaban'') = str ''Halo''"
  using unterminated_span_removed[OF sample_unterminated(5) sample_unterminated(1) sample_unterminated(2)]
  by (simp only: sample_unterminated simp_thms)

subsection \<open>Suitability\<close>

lemma replace_all_NCls: "replace_all f (NCls items) [] t = filter (cls_match f items) t"
  by (simp add: replace_all_def replace_scan_NCls)

lemma cls_match_readable: "cls_match no_flags readable_class = readable"
  by (rule ext)
     (auto simp: cls_match_def no_flags_def in_class_def readable_class_def chars_def readable_def)

lemma trim_empty_iff: "trim t = [] \<longleftrightarrow> list_all is_ws t"
proof -
  have "trim t = [] \<longleftrightarrow> dropWhile is_ws t = []"
  proof
    assume "trim t = []"
    then have a: "\<forall>x \<in> set (dropWhile is_ws t). is_ws x"
      by (simp add: trim_def dropWhile_eq_Nil_conv)
    show "dropWhile is_ws t = []"
    proof (rule ccontr)
      assume n: "dropWhile is_ws t \<noteq> []"
      then have "\<not> is_ws (hd (dropWhile is_ws t))" by (rule hd_dropWhile)
      with a n show False by (meson list.set_sel(1))
    qed
  next
    assume "dropWhile is_ws t = []"
    then show "trim t = []" by (simp add: trim_def del: dropWhile_eq_Nil_conv)
  qed
  then show ?thesis by (simp add: dropWhile_eq_Nil_conv list_all_iff)
qed

lemma trim_trim: "trim (trim t) = trim t"
proof -
  define d1 where "d1 = dropWhile is_ws t"
  define d2 where "d2 = dropWhile is_ws (rev d1)"
  have t: "trim t = rev d2" by (simp add: trim_def d1_def d2_def)
  have d2: "dropWhile is_ws d2 = d2" by (simp add: d2_def)
  have "dropWhile is_ws (rev d2) = rev d2"
  proof (cases "d2 = []")
    case True
    then show ?thesis by simp
  next
    case False
    have "rev d1 = takeWhile is_ws (rev d1) @ d2" by (simp add: d2_def)
    then have d: "d1 = rev d2 @ rev (takeWhile is_ws (rev d1))" by (metis rev_append rev_rev_ident)
    then have "hd d1 = hd (rev d2)" using False by (metis hd_append2 rev_is_Nil_conv)
    moreover have "d1 \<noteq> []" using d False by auto
    then have "\<not> is_ws (hd d1)" unfolding d1_def by (rule hd_dropWhile)
    ultimately show ?thesis using False by (cases "rev d2") auto
  qed
  then have "trim (rev d2) = rev d2" by (simp add: trim_def d2)
  then show ?thesis by (simp add: t)
qed

lemma formatForVoice_trimmed: "trim (formatForVoice cfg t) = formatForVoice cfg t"
  by (simp add: formatForVoice_def Let_def trim_trim)

lemma formatForVoice_debug: "formatForVoice (cfg\<lparr>debug := d\<rparr>) t = formatForVoice cfg t"
  by (simp add: formatForVoice_def)

lemma isSuitableForVoice_iff:
  "isSuitableForVoice cfg t \<longleftrightarrow>
     \<not> list_all is_ws (formatForVoice cfg t) \<and>
     real (length (filter readable (formatForVoice cfg t))) / real (length (formatForVoice cfg t)) > 0.5"
  by (auto simp: isSuitableForVoice_def Let_def trim_empty_iff replace_all_NCls cls_match_readable)

lemma ci_prefix_self: "ci_prefix s (s @ w)"
  by (simp add: ci_prefix_def)

lemma star_any_complete:
  "k \<le> length (ahead s) \<Longrightarrow> consume k s \<in> set (star g (ends f any_char) s)"
proof (induction k arbitrary: s)
  case 0
  show ?case by (subst star.simps) (simp add: consume_0 Let_def)
next
  case (Suc k)
  then obtain c a where a: "ahead s = c # a" by (cases "ahead s") auto
  have m: "ends f any_char s = [consume 1 s]"
    by (simp add: any_char_def a cls_match_any)
  have "consume k (consume 1 s) \<in> set (star g (ends f any_char) (consume 1 s))"
    by (rule Suc.IH) (use Suc.prems a in \<open>simp add: ahead_consume\<close>)
  then have "consume (Suc k) s \<in> set (star g (ends f any_char) (consume 1 s))"
    by (simp add: consume_consume)
  then show ?case
    by (subst star.simps) (cases g; simp add: m Let_def ahead_consume a del: ends.simps)
qed

lemma pattern1_Nil: "match_here flags_i think_pattern1 b [] = None"
  by (simp add: match_here_None_iff think_pattern1_def str_def)

lemma pattern1_whole_span:
  assumes one: "count_ci (str ''</think>'') (c @ str ''</think>'') = 1"
  shows "replace_all flags_i think_pattern1 [] (str ''<think>'' @ c @ str ''</think>'') = []"
proof -
  let ?x = "str ''<think>'' @ c @ str ''</think>''"
  let ?st0 = "\<lparr>behind = [], ahead = ?x, cap = None\<rparr>"
  let ?s1 = "consume (length (str ''<think>'')) ?st0"
  let ?R = "Seq (Lazy any_char) (Str (str ''</think>''))"
  have a1: "ahead ?s1 = c @ str ''</think>''" by (simp add: ahead_consume)
  have e0: "ends flags_i think_pattern1 ?st0 = ends flags_i ?R ?s1"
    unfolding think_pattern1_def ends.simps(5)[of _ "Str _"] ends_Str_ci
    by (simp add: ci_prefix_self del: ends.simps)
  have all_end: "ahead st' = []" if "st' \<in> set (ends flags_i ?R ?s1)" for st'
  proof -
    from seq_lit_occurs[OF that] obtain u v where uv: "ahead ?s1 = u @ v"
      "ci_prefix (str ''</think>'') v" "ahead st' = drop (length (str ''</think>'')) v"
      by blast
    have vn: "v \<noteq> []" using uv(2) by (auto simp: ci_prefix_def str_def)
    have "c = u"
      by (rule count_ci_unique[OF one refl ci_prefix_self[of _ "[]", simplified] _ _ uv(2) vn])
         (use uv(1) a1 in \<open>simp_all add: str_def\<close>)
    then have "v = str ''</think>''" using uv(1) a1 by simp
    then show ?thesis using uv(3) by simp
  qed
  have "consume (length c) ?s1 \<in> set (star False (ends flags_i any_char) ?s1)"
    by (rule star_any_complete) (simp add: a1)
  moreover have "ends flags_i (Str (str ''</think>'')) (consume (length c) ?s1) \<noteq> []"
    unfolding ends_Str_ci by (simp add: ahead_consume ci_prefix_self[of _ "[]", simplified])
  ultimately have ne: "ends flags_i ?R ?s1 \<noteq> []"
    unfolding ends.simps(5) ends.simps(8) by (auto simp del: ends.simps)
  then obtain st' rest where r: "ends flags_i ?R ?s1 = st' # rest"
    by (cases "ends flags_i ?R ?s1") auto
  then have "ahead st' = []" using all_end[of st'] by simp
  then have m: "match_here flags_i think_pattern1 [] ?x = Some st'" "ahead st' = []"
    using r e0 by (simp_all add: match_here_def del: ends.simps)
  have xn: "?x \<noteq> []" by (simp add: str_def)
  have "replace_scan flags_i think_pattern1 [] (behind st') [] = []"
    by (subst replace_scan.simps) (simp add: pattern1_Nil)
  then have "replace_scan flags_i think_pattern1 [] [] ?x = []"
    using xn by (subst replace_scan.simps) (simp add: m expand_def del: append_is_Nil_conv)
  then show ?thesis by (simp add: replace_all_def)
qed

lemma after_pattern1_Nil:
  "think_heuristics (replace_all flags_i think_pattern3 [] (replace_all flags_i think_pattern2 [] [])) = []"
  by code_simp

lemma formatForVoice_Nil: "formatForVoice voiceFormatter [] = []"
  by code_simp

lemma span_only_removed:
  assumes "count_ci (str ''</think>'') (c @ str ''</think>'') = 1"
  shows "formatForVoice voiceFormatter (str ''<think>'' @ c @ str ''</think>'') = []"
proof -
  have n: "str ''<think>'' @ c @ str ''</think>'' \<noteq> []" by (simp add: str_def)
  have "removeThinkTags (str ''<think>'' @ c @ str ''</think>'') =
        think_heuristics (replace_all flags_i think_pattern3 [] (replace_all flags_i think_pattern2 []
          (replace_all flags_i think_pattern1 [] (str ''<think>'' @ c @ str ''</think>''))))"
    unfolding removeThinkTags_def Let_def using n by (simp only: if_False)
  then have "removeThinkTags (str ''<think>'' @ c @ str ''</think>'') = []"
    by (simp only: pattern1_whole_span[OF assms] after_pattern1_Nil)
  then have r: "removeThinkTags (str ''<think>'' @ c @ str ''</think>'') = removeThinkTags []"
    by (simp only: removeThinkTags_Nil)
  have on: "removeThinkTags_on voiceFormatter"
    by (simp add: voiceFormatter_def DEFAULT_VOICE_CONFIG_def)
  have "formatForVoice voiceFormatter (str ''<think>'' @ c @ str ''</think>'') =
        formatForVoice voiceFormatter []"
    using on r by (rule formatForVoice_cong)
  then show ?thesis by (simp only: formatForVoice_Nil)
qed

text \<open>
  Claim C6. \<open>isVoiceSuitable\<close> returns false exactly when the text sanitized with the
  default configuration is empty or whitespace only, or the ratio of its readable characters
  (word characters, whitespace and \<open>. , ! ?\<close>) to its length is at most 0.5. In particular
  it is false for the empty text, and a text that is one reasoning span
  \<open><think>...</think>\<close>, its end marker being the only one, is sanitized to the empty text
  and is unsuitable.
\<close>

theorem isVoiceSuitable_iff:
  "(\<not> isVoiceSuitable t \<longleftrightarrow>
      list_all is_ws (formatForVoice DEFAULT_VOICE_CONFIG t) \<or>
      real (length (filter readable (formatForVoice DEFAULT_VOICE_CONFIG t))) /
        real (length (formatForVoice DEFAULT_VOICE_CONFIG t)) \<le> 0.5)
   \<and> \<not> isVoiceSuitable []
   \<and> (count_ci (str ''</think>'') (c @ str ''</think>'') = 1 \<longrightarrow>
        formatForVoice DEFAULT_VOICE_CONFIG (str ''<think>'' @ c @ str ''</think>'') = [] \<and>
        \<not> isVoiceSuitable (str ''<think>'' @ c @ str ''</think>''))"
proof -
  have d: "formatForVoice voiceFormatter u = formatForVoice DEFAULT_VOICE_CONFIG u" for u
    by (simp add: voiceFormatter_def formatForVoice_debug)
  have 1: "\<not> isVoiceSuitable u \<longleftrightarrow>
      list_all is_ws (formatForVoice DEFAULT_VOICE_CONFIG u) \<or>
      real (length (filter readable (formatForVoice DEFAULT_VOICE_CONFIG u))) /
        real (length (formatForVoice DEFAULT_VOICE_CONFIG u)) \<le> 0.5" for u
    by (auto simp: isVoiceSuitable_def isSuitableForVoice_iff d)
  have 2: "\<not> isVoiceSuitable []"
    using formatForVoice_Nil by (simp add: 1 d[symmetric])
  have 3: "formatForVoice DEFAULT_VOICE_CONFIG (str ''<think>'' @ c @ str ''</think>'') = [] \<and>
        \<not> isVoiceSuitable (str ''<think>'' @ c @ str ''</think>'')"
    if "count_ci (str ''</think>'') (c @ str ''</think>'') = 1"
    using span_only_removed[OF that] by (simp add: 1 d[symmetric])
  show ?thesis using 1[of t] 2 3 by blast
qed

lemma sample_span:
  "count_ci (str ''</think>'') (str ''only reasoning'' @ str ''</think>'') = 1"
  by code_simp

theorem isVoiceSuitable_iff_witness:
  "count_ci (str ''</think>'') (str ''only reasoning'' @ str ''</think>'') = 1 \<and>
   formatForVoice DEFAULT_VOICE_CONFIG (str ''<think>'' @ str ''only reasoning'' @ str ''</think>'') = [] \<and>
   \<not> isVoiceSuitable (str ''<think>'' @ str ''only reasoning'' @ str ''</think>'')"
  using isVoiceSuitable_iff[of "[]" "str ''only reasoning''"] sample_span by blast

subsection \<open>Sanitizing twice\<close>






















































lemma plain_samples:
  "plain_text DEFAULT_VOICE_CONFIG (formatForVoice DEFAULT_VOICE_CONFIG (str ''Halo  apa kabar''))"
  "plain_text DEFAULT_VOICE_CONFIG (formatForVoice DEFAULT_VOICE_CONFIG (str ''yg penting dll''))"
  "plain_text DEFAULT_VOICE_CONFIG
     (formatForVoice DEFAULT_VOICE_CONFIG (str ''<think>rencana</think>**Halo!!** Apa kabar.... :)''))"
  "formatForVoice DEFAULT_VOICE_CONFIG (str ''yg penting dll'') = str ''yang penting dan lain lain''"
  "\<not> plain_text DEFAULT_VOICE_CONFIG (formatForVoice DEFAULT_VOICE_CONFIG (str ''Wah!(hebat)!''))"
  by code_simp+


subsection \<open>No angle bracket survives the sanitizer\<close>

lemma replace_scan_subset:
  assumes X: "\<And>st. set (expand rep st) \<subseteq> X"
  shows "set (replace_scan f r rep b a) \<subseteq> set a \<union> X"
proof (induction a arbitrary: b rule: length_induct)
  case (1 a)
  show ?case
  proof (cases "match_here f r b a")
    case None
    show ?thesis
    proof (cases a)
      case Nil
      then show ?thesis using None by (subst replace_scan.simps) simp
    next
      case (Cons c a')
      have "set (replace_scan f r rep (c # b) a') \<subseteq> set a' \<union> X"
        using 1 Cons by simp
      then show ?thesis using None Cons by (subst replace_scan.simps) auto
    qed
  next
    case (Some st)
    from match_here_moved[OF Some] obtain u where u: "a = u @ ahead st" by blast
    show ?thesis
    proof (cases "length (ahead st) < length a")
      case True
      have "set (replace_scan f r rep (behind st) (ahead st)) \<subseteq> set (ahead st) \<union> X"
        using 1 True by simp
      moreover have "set (ahead st) \<subseteq> set a" using u by (metis set_append Un_upper2)
      ultimately show ?thesis using Some True X[of st]
        by (subst replace_scan.simps) auto
    next
      case False
      show ?thesis
      proof (cases a)
        case Nil
        then show ?thesis using Some False X[of st] by (subst replace_scan.simps) auto
      next
        case (Cons c a')
        have "set (replace_scan f r rep (c # b) a') \<subseteq> set a' \<union> X"
          using 1 Cons by simp
        then show ?thesis using Some False Cons X[of st] by (subst replace_scan.simps) auto
      qed
    qed
  qed
qed

lemma replace_all_delete_subset: "set (replace_all f r [] t) \<subseteq> set t"
  using replace_scan_subset[of "[]" "{}" f r "[]" t] by (simp add: replace_all_def expand_def)

lemma replace_all_blank_subset: "set (replace_all f r [Txt (str '' '')] t) \<subseteq> set t \<union> {32}"
  using replace_scan_subset[of "[Txt (str '' '')]" "{32}" f r "[]" t]
  by (simp add: replace_all_def expand_def str_def)

lemma special_chars_lt: "cls_match no_flags special_chars 60"
  by (simp add: cls_match_def special_chars_def in_class_def chars_def)

lemma cleanupText_no_lt: "60 \<notin> set (cleanupText t)"
proof -
  define t3 where "t3 = replace_all no_flags (Cls special_chars) []
     (replace_all no_flags (Plus (Str [10])) [Txt (str '' '')]
       (replace_all no_flags (Plus (Cls [Space])) [Txt (str '' '')] t))"
  have "60 \<notin> set t3"
    using special_chars_lt by (simp add: t3_def replace_all_def[of _ "Cls _"] replace_scan_Cls)
  moreover have "set (cleanupText t) \<subseteq> set t3 \<union> {32}"
    unfolding cleanupText_def Let_def t3_def[symmetric]
    using replace_all_delete_subset replace_all_blank_subset by blast
  ultimately show ?thesis by auto
qed

lemma set_trim: "set (trim t) \<subseteq> set t"
proof -
  have "set (dropWhile is_ws (rev (dropWhile is_ws t))) \<subseteq> set (rev (dropWhile is_ws t))"
    by (meson set_dropWhileD subsetI)
  moreover have "set (dropWhile is_ws t) \<subseteq> set t" by (meson set_dropWhileD subsetI)
  ultimately show ?thesis by (auto simp: trim_def)
qed

lemma split_scan_subset:
  "p \<in> set (split_scan f r b piece a) \<Longrightarrow> set p \<subseteq> set piece \<union> set a"
proof (induction a arbitrary: b piece rule: length_induct)
  case (1 a)
  show ?case
  proof (cases a)
    case Nil
    then show ?thesis using 1(2) by simp
  next
    case (Cons c a')
    note IH = 1(1)[rule_format]
    show ?thesis
    proof (cases "match_here f r b (c # a')")
      case None
      then have "p \<in> set (split_scan f r (c # b) (c # piece) a')" using 1(2) Cons by simp
      from IH[OF _ this] Cons show ?thesis by auto
    next
      case (Some st)
      from match_here_moved[OF Some] obtain u where u: "c # a' = u @ ahead st" by blast
      then have sub: "set (ahead st) \<subseteq> set a" using Cons by (metis set_append Un_upper2)
      show ?thesis
      proof (cases "length (ahead st) < length (c # a')")
        case True
        then have "p = rev piece \<or> p \<in> set (split_scan f r (behind st) [] (ahead st))"
          using 1(2) Cons Some by simp
        then show ?thesis
        proof
          assume "p = rev piece" then show ?thesis by simp
        next
          assume "p \<in> set (split_scan f r (behind st) [] (ahead st))"
          from IH[OF _ this] True Cons sub show ?thesis by auto
        qed
      next
        case False
        then have "p = rev piece \<or> p \<in> set (split_scan f r (c # b) [c] a')"
          using 1(2) Cons Some by (auto split: if_splits)
        then show ?thesis
        proof
          assume "p = rev piece" then show ?thesis by simp
        next
          assume "p \<in> set (split_scan f r (c # b) [c] a')"
          from IH[OF _ this] Cons show ?thesis by auto
        qed
      qed
    qed
  qed
qed

lemma split_subset: "p \<in> set (split f r t) \<Longrightarrow> set p \<subseteq> set t"
  using split_scan_subset[of p f r "[]" "[]" t] by (auto simp: split_def split: if_splits)

lemma sentence_loop_subset:
  "set (sentence_loop n ss res) \<subseteq> set res \<union> \<Union>(set ` set ss) \<union> {32, 46}"
proof (induction ss arbitrary: res)
  case Nil
  show ?case by auto
next
  case (Cons s ss)
  define r' where "r' = res @ (if res \<noteq> [] then str '' '' else []) @ trim s @ str ''.''"
  have "set r' \<subseteq> set res \<union> set s \<union> {32, 46}"
    using set_trim[of s] by (auto simp: r'_def str_def)
  with Cons.IH[of r']
  have b: "set (sentence_loop n ss r') \<subseteq> set res \<union> \<Union>(set ` set (s # ss)) \<union> {32, 46}"
    by auto
  have a: "set (sentence_loop n ss res) \<subseteq> set res \<union> \<Union>(set ` set (s # ss)) \<union> {32, 46}"
    using Cons.IH[of res] by auto
  have c: "set res \<subseteq> set res \<union> \<Union>(set ` set (s # ss)) \<union> {32, 46}" by blast
  have "sentence_loop n (s # ss) res = sentence_loop n ss res \<or>
        sentence_loop n (s # ss) res = res \<or>
        sentence_loop n (s # ss) res = sentence_loop n ss r'"
    by (simp add: Let_def r'_def)
  then show ?case using a b c by metis
qed

lemma word_loop_subset:
  "set (word_loop n ws res) \<subseteq> set res \<union> \<Union>(set ` set ws) \<union> {32}"
proof (induction ws arbitrary: res)
  case Nil
  show ?case by auto
next
  case (Cons w ws)
  define r' where "r' = res @ (if res \<noteq> [] then str '' '' else []) @ w"
  have "set r' \<subseteq> set res \<union> set w \<union> {32}"
    by (auto simp: r'_def str_def)
  with Cons.IH[of r']
  have b: "set (word_loop n ws r') \<subseteq> set res \<union> \<Union>(set ` set (w # ws)) \<union> {32}"
    by auto
  have c: "set res \<subseteq> set res \<union> \<Union>(set ` set (w # ws)) \<union> {32}" by blast
  have "word_loop n (w # ws) res = res \<or> word_loop n (w # ws) res = word_loop n ws r'"
    by (simp add: r'_def)
  then show ?case using b c by metis
qed

lemma limitLength_subset: "set (limitLength t n) \<subseteq> set t \<union> {32, 46}"
proof -
  have s: "set (sentence_loop n (split no_flags (Plus (Cls (chars ''.!?''))) t) []) \<subseteq> set t \<union> {32, 46}"
    using sentence_loop_subset[of n "split no_flags (Plus (Cls (chars ''.!?''))) t" "[]"]
      split_subset[of _ no_flags "Plus (Cls (chars ''.!?''))" t] by auto
  have w: "set (word_loop n (split no_flags (Str (str '' '')) t) []) \<subseteq> set t \<union> {32, 46}"
    using word_loop_subset[of n "split no_flags (Str (str '' '')) t" "[]"]
      split_subset[of _ no_flags "Str (str '' '')" t] by auto
  have k: "set (take n t) \<subseteq> set t" by (rule set_take_subset)
  show ?thesis
    using s w k by (auto simp: limitLength_def Let_def str_def)
qed

lemma formatForVoice_no_lt: "60 \<notin> set (formatForVoice cfg t)"
proof -
  obtain y where y: "formatForVoice cfg t =
      trim (case maxLength cfg of None \<Rightarrow> cleanupText y
            | Some n \<Rightarrow> if n = 0 then cleanupText y else limitLength (cleanupText y) n)"
    by (simp add: formatForVoice_def Let_def)
  have l: "60 \<notin> set (limitLength (cleanupText y) n)" for n
    using cleanupText_no_lt[of y] limitLength_subset[of "cleanupText y" n] by auto
  have "60 \<notin> set (case maxLength cfg of None \<Rightarrow> cleanupText y
            | Some n \<Rightarrow> if n = 0 then cleanupText y else limitLength (cleanupText y) n)"
    using cleanupText_no_lt[of y] l by (simp split: option.splits)
  then show ?thesis using set_trim y by (metis subsetD)
qed

lemma map_canon_no_flags: "map (canon no_flags) xs = xs"
  by (induction xs) (simp_all add: canon_def no_flags_def)

lemma open_tag_needs_lt: "test no_flags re_open_tag y \<Longrightarrow> 60 \<in> set y"
proof -
  assume "test no_flags re_open_tag y"
  then obtain u v where uv: "y = u @ v" "match_here no_flags re_open_tag (rev u @ []) v \<noteq> None"
    unfolding test_def test_scan_iff by blast
  then have "take (length (str ''<think>'')) v = str ''<think>''"
    by (auto simp: match_here_None_iff re_open_tag_def map_canon_no_flags split: if_splits)
  then have "60 \<in> set (take (length (str ''<think>'')) v)" by (simp add: str_def)
  then have "60 \<in> set v" by (meson in_set_takeD)
  then show ?thesis using uv(1) by simp
qed

subsection \<open>Unclosed reasoning spans in the primary response\<close>

text \<open>
  Claim C4, amended. When the primary call returns text with 3 \<open><think>\<close> markers and 1
  \<open></think>\<close> marker, validation reports "Incomplete <think> tags detected", exactly one
  retry request follows the primary request, and the text returned is the retry's text after
  \<open>clean_simple\<close> (trimmed, characters outside Latin-1 deleted), or the greeting when the
  retry call fails. \<open>sendMessage\<close> does not look for start markers in that text; no start
  marker is left once the text has gone through \<open>formatForVoice\<close>, whatever the
  configuration, as it does before it is spoken.
\<close>

theorem unclosed_tags_retry:
  assumes p: "pending w = HttpOk data # rest"
    and o: "openThinkTags (response data) = 3"
    and c: "closeThinkTags (response data) = 1"
  shows "IncompleteThink \<in> set (issues (validateResponse (response data)))
       \<and> sent (snd (snd (sendMessage this seed msg h w))) =
           sent w @ [primary_request this seed msg h, simple_request this msg]
       \<and> message (fst (sendMessage this seed msg h w)) =
           (case retry_outcome w of HttpOk d \<Rightarrow> clean_simple (response d) | _ \<Rightarrow> greeting)
       \<and> \<not> test no_flags re_open_tag (formatForVoice cfg (message (fst (sendMessage this seed msg h w))))"
proof -
  have i: "IncompleteThink \<in> set (issues (validateResponse (response data)))"
    by (simp add: issues_validateResponse o c)
  then have r: "retried w" by (simp add: retried_def p serious_def)
  note a = sendMessage_analysis[of this seed msg h w]
  have s: "sent (snd (snd (sendMessage this seed msg h w))) =
           sent w @ [primary_request this seed msg h, simple_request this msg]"
    using a r by simp
  have m: "message (fst (sendMessage this seed msg h w)) =
           (case retry_outcome w of HttpOk d \<Rightarrow> clean_simple (response d) | _ \<Rightarrow> greeting)"
    using a r by (auto split: fetch_outcome.splits)
  have "\<not> test no_flags re_open_tag (formatForVoice cfg t)" for t
    using open_tag_needs_lt formatForVoice_no_lt by blast
  with i s m show ?thesis by blast
qed

lemma sample_counts: "openThinkTags sample_raw = 3" "closeThinkTags sample_raw = 1"
  by code_simp+

lemma sample_pending:
  "pending sample_world =
     HttpOk \<lparr>response = sample_raw, is_done = True, resp_context = Some [1, 2, 3]\<rparr> #
     [HttpOk \<lparr>response = str ''<think>Halo'', is_done = True, resp_context = Some [4, 5]\<rparr>]"
  by (simp add: sample_world_def)

theorem unclosed_tags_retry_witness:
  "openThinkTags sample_raw = 3 \<and> closeThinkTags sample_raw = 1 \<and>
   IncompleteThink \<in> set (issues (validateResponse sample_raw)) \<and>
   length (sent (snd (snd (sendMessage sample_client 7 (str ''hai'') [] sample_world)))) = 2 \<and>
   message (fst (sendMessage sample_client 7 (str ''hai'') [] sample_world)) = str ''<think>Halo'' \<and>
   \<not> test no_flags re_open_tag
       (formatForVoice DEFAULT_VOICE_CONFIG (message (fst (sendMessage sample_client 7 (str ''hai'') [] sample_world))))"
proof -
  have s: "sent sample_world = []" by (simp add: sample_world_def)
  note t = unclosed_tags_retry[OF sample_pending, of sample_client 7 "str ''hai''" "[]" DEFAULT_VOICE_CONFIG,
      simplified ollama_response.simps, OF sample_counts]
  have 1: "IncompleteThink \<in> set (issues (validateResponse sample_raw))" using t by blast
  have 2: "length (sent (snd (snd (sendMessage sample_client 7 (str ''hai'') [] sample_world)))) = 2"
    using t by (simp add: s)
  have 3: "message (fst (sendMessage sample_client 7 (str ''hai'') [] sample_world)) = str ''<think>Halo''"
    using t by (simp add: sample_retry_outcome sample_clean)
  have 4: "\<not> test no_flags re_open_tag
       (formatForVoice DEFAULT_VOICE_CONFIG (message (fst (sendMessage sample_client 7 (str ''hai'') [] sample_world))))"
    using t by blast
  show ?thesis using 1 2 3 4 sample_counts by blast
qed

text \<open>
  Claim C4 as stated fails: the retry's text is not searched for reasoning markers. With a
  primary response of 3 start markers and 1 end marker and a retry response
  \<open><think>Halo\<close>, the text returned to the caller is \<open><think>Halo\<close>.
\<close>

theorem retry_keeps_marker_counterexample:
  "openThinkTags sample_raw = 3 \<and> closeThinkTags sample_raw = 1 \<and>
   pending sample_world =
     [HttpOk \<lparr>response = sample_raw, is_done = True, resp_context = Some [1, 2, 3]\<rparr>,
      HttpOk \<lparr>response = str ''<think>Halo'', is_done = True, resp_context = Some [4, 5]\<rparr>] \<and>
   message (fst (sendMessage sample_client 7 (str ''hai'') [] sample_world)) = str ''<think>Halo'' \<and>
   test no_flags re_open_tag (message (fst (sendMessage sample_client 7 (str ''hai'') [] sample_world)))"
  by code_simp

subsection \<open>The examples of the specification\<close>

text \<open>
  The sanitizer on the specification's examples; the emoji of the first is the surrogate
  pair D83D DE0A.
\<close>

lemma example_halo:
  "formatForVoice DEFAULT_VOICE_CONFIG
     (str ''<think>planning reply</think>**Halo!** Apa kabar? '' @ [0xD83D, 0xDE0A]) =
   str ''Halo! Apa kabar?''"
  by code_simp

lemma example_percent:
  "formatForVoice DEFAULT_VOICE_CONFIG (str ''50%'') = str ''50 persen''"
  by code_simp

lemma example_cjk:
  "issues (validateResponse (str ''Halo '' @ [0x4F60, 0x597D])) = [NonIndonesian]"
  by code_simp

end
